theory Spec2Isabelle
  imports Complex_Main "HOL-Library.Word" "HOL-Library.Log_Nat" "HOL-Library.Signed_Division"
begin

section \<open>IEEE-754 binary64 arithmetic\<close>

text \<open>
  The program computes in C++ \<^verbatim>\<open>double\<close>. A double is modelled by its value: a finite
  rational, negative zero, an infinity or NaN. Every operation computes the exact
  rational result and rounds it to the nearest representable value, ties to even,
  with 53 significant bits, gradual underflow below \<open>2 powi (- 1022)\<close> and overflow to
  an infinity from \<open>2 ^ 1024\<close> on. \<open>Fin q\<close> stands for a double only when \<open>q\<close> is
  representable, and every value the program computes is: a converted 32-bit integer,
  a rounded literal or a rounded result.
\<close>

datatype double = Fin rat | NegZero | PInf | NInf | NaN

text \<open>\<open>ilog2 q\<close> is the binary exponent of a positive rational: \<open>2 powi ilog2 q \<le> q < 2 powi (ilog2 q + 1)\<close>.\<close>

definition ilog2 :: "rat \<Rightarrow> int" where
  "ilog2 q = (case quotient_of q of (a, b) \<Rightarrow>
     (let d = bitlen a - bitlen b in if q < 2 powi d then d - 1 else d))"

definition round_half_even :: "rat \<Rightarrow> int" where
  "round_half_even x = (let f = \<lfloor>x\<rfloor>; d = x - of_int f in
     if d < 1 / 2 then f else if 1 / 2 < d then f + 1 else if even f then f else f + 1)"

text \<open>Rounding of a positive magnitude; the unit in the last place is \<open>2 powi (e - 52)\<close>.\<close>

definition round_mag :: "rat \<Rightarrow> rat" where
  "round_mag m = (let e = max (ilog2 m) (- 1022); u = 2 powi (e - 52) in
     of_int (round_half_even (m / u)) * u)"

definition dzero :: "bool \<Rightarrow> double" where
  "dzero neg = (if neg then NegZero else Fin 0)"

definition dinf :: "bool \<Rightarrow> double" where
  "dinf neg = (if neg then NInf else PInf)"

text \<open>Rounding of a magnitude with the sign of the exact result.\<close>

definition round_double :: "bool \<Rightarrow> rat \<Rightarrow> double" where
  "round_double neg m = (if m = 0 then dzero neg else
     (let r = round_mag m in
      if 2 ^ 1024 \<le> r then dinf neg
      else if r = 0 then dzero neg
      else Fin (if neg then - r else r)))"

fun dneg :: "double \<Rightarrow> bool" where
  "dneg (Fin q) = (q < 0)"
| "dneg NegZero = True"
| "dneg PInf = False"
| "dneg NInf = True"
| "dneg NaN = False"

fun dmag :: "double \<Rightarrow> rat" where
  "dmag (Fin q) = \<bar>q\<bar>"
| "dmag _ = 0"

fun dval :: "double \<Rightarrow> rat" where
  "dval (Fin q) = q"
| "dval _ = 0"

definition is_inf :: "double \<Rightarrow> bool" where
  "is_inf x = (x = PInf \<or> x = NInf)"

definition is_zero :: "double \<Rightarrow> bool" where
  "is_zero x = (x = Fin 0 \<or> x = NegZero)"

definition is_finite :: "double \<Rightarrow> bool" where
  "is_finite x = (case x of Fin _ \<Rightarrow> True | NegZero \<Rightarrow> True | _ \<Rightarrow> False)"

definition dmul :: "double \<Rightarrow> double \<Rightarrow> double" where
  "dmul x y = (if x = NaN \<or> y = NaN then NaN
     else if is_inf x \<or> is_inf y then
       (if is_zero x \<or> is_zero y then NaN else dinf (dneg x \<noteq> dneg y))
     else round_double (dneg x \<noteq> dneg y) (dmag x * dmag y))"

definition ddiv :: "double \<Rightarrow> double \<Rightarrow> double" where
  "ddiv x y = (if x = NaN \<or> y = NaN then NaN
     else if is_inf x then (if is_inf y then NaN else dinf (dneg x \<noteq> dneg y))
     else if is_inf y then dzero (dneg x \<noteq> dneg y)
     else if is_zero y then (if is_zero x then NaN else dinf (dneg x \<noteq> dneg y))
     else round_double (dneg x \<noteq> dneg y) (dmag x / dmag y))"

fun dless :: "double \<Rightarrow> double \<Rightarrow> bool" where
  "dless NaN _ = False"
| "dless _ NaN = False"
| "dless PInf _ = False"
| "dless _ NInf = False"
| "dless NInf _ = True"
| "dless _ PInf = True"
| "dless x y = (dval x < dval y)"

text \<open>A decimal literal of the source denotes the nearest double.\<close>

definition dlit :: "rat \<Rightarrow> double" where
  "dlit q = round_double (q < 0) \<bar>q\<bar>"

text \<open>
  A C++ \<^verbatim>\<open>int\<close> is a 32-bit word read in two's complement. Signed overflow is undefined
  in C++; the model takes the wrap-around of the machine multiplication, which is what
  the compiled program does. The conversion of an \<^verbatim>\<open>int\<close> to \<^verbatim>\<open>double\<close> is exact.
\<close>

type_synonym int32 = "32 word"

definition double_of_int :: "int32 \<Rightarrow> double" where
  "double_of_int i = Fin (of_int (sint i))"

definition int32_div :: "int32 \<Rightarrow> int32 \<Rightarrow> int32" where
  "int32_div x y = word_of_int (sint x sdiv sint y)"

section \<open>The estimators of profile.cu\<close>

text \<open>
  Lines 22 to 41 of \<^verbatim>\<open>getTheoreticalGFLOPS\<close>: the chain of conditionals that sets
  \<^verbatim>\<open>coresPerSM\<close> from the compute capability.
\<close>

definition coresPerSM :: "int32 \<Rightarrow> int32 \<Rightarrow> int32" where
  "coresPerSM major minor =
     (if major = 2 then 32
      else if major = 3 then 192
      else if major = 5 then 128
      else if major = 6 then (if minor = 0 then 64 else 128)
      else if major = 7 then (if minor = 0 then 64 else 64)
      else if major = 8 then (if minor = 0 then 64 else 128)
      else if major = 9 then 128
      else 64)"

text \<open>
  \<^verbatim>\<open>int totalCores = coresPerSM * multiProcessorCount;\<close>
  \<^verbatim>\<open>gflops = (totalCores * clockRate * 2.0) / 1000000.0;\<close>
  Both products of \<^verbatim>\<open>int\<close>s are 32-bit products; only their result is converted.
\<close>

definition getTheoreticalGFLOPS :: "int32 \<Rightarrow> int32 \<Rightarrow> int32 \<Rightarrow> int32 \<Rightarrow> double" where
  "getTheoreticalGFLOPS major minor multiProcessorCount clockRate =
     (let totalCores = coresPerSM major minor * multiProcessorCount
      in ddiv (dmul (double_of_int (totalCores * clockRate)) (dlit 2)) (dlit 1000000))"

text \<open>
  \<^verbatim>\<open>return (memoryClockRate * 2.0 * memoryBusWidth) / (8.0 * 1000.0);\<close>
  Here the first product already has a \<^verbatim>\<open>double\<close> operand, so both are products of doubles.
\<close>

definition getMemoryBandwidth :: "int32 \<Rightarrow> int32 \<Rightarrow> double" where
  "getMemoryBandwidth memoryClockRate memoryBusWidth =
     ddiv (dmul (dmul (double_of_int memoryClockRate) (dlit 2)) (double_of_int memoryBusWidth))
          (dmul (dlit 8) (dlit 1000))"

definition calculateBoundaryArithmeticIntensity :: "double \<Rightarrow> double \<Rightarrow> double" where
  "calculateBoundaryArithmeticIntensity peakGFLOPS memoryBandwidthGB =
     ddiv peakGFLOPS memoryBandwidthGB"

subsection \<open>The formulas of the specification\<close>

text \<open>
  The specification's closed formulas, over the integers and the rationals, with one
  rounding of the exact value to a double at the end.
\<close>

definition peak_throughput :: "int \<Rightarrow> int \<Rightarrow> int \<Rightarrow> double" where
  "peak_throughput clusters cores clock = dlit (of_int (clusters * cores * clock * 2) / 1000000)"

definition peak_bandwidth :: "int \<Rightarrow> int \<Rightarrow> double" where
  "peak_bandwidth mem_clock bus_width = dlit (of_int (mem_clock * 2 * bus_width) / 8000)"

section \<open>The report\<close>

datatype label = MemoryBound | ComputingBound

datatype workload = VectorAdd | MatVecMul | SmallMatMul | LargeMatMul | Convolution

text \<open>
  The output is a list of items, one per block of printed lines. The fixed text of a
  block is its constructor; the values printed in it are the arguments.
\<close>

datatype out_item =
    Title
  | NoDeviceFound
  | DeviceHeader int string
  | HardwareSpec int32 int32 int32 int32 int32 int32 nat nat
  | Performance double double double
  | Thresholds double double
  | Reference workload label
  | Advice
  | RooflinePoints double double double double double
  | Rule string

record cudaDeviceProp =
  name :: string
  major :: int32
  minor :: int32
  multiProcessorCount :: int32
  clockRate :: int32
  memoryClockRate :: int32
  memoryBusWidth :: int32
  totalGlobalMem :: nat
  sharedMemPerBlock :: nat

text \<open>Lines 111 to 130 of \<^verbatim>\<open>main\<close>: the five reference operations.\<close>

definition referenceWorkloads :: "double \<Rightarrow> out_item list" where
  "referenceWorkloads boundaryAI =
     [Reference VectorAdd
        (if dless (dlit (33 / 100)) boundaryAI then MemoryBound else ComputingBound),
      Reference MatVecMul
        (if dless (dlit 2) boundaryAI then MemoryBound else ComputingBound),
      Reference SmallMatMul
        (if dless (dlit 8) boundaryAI then MemoryBound else ComputingBound),
      Reference LargeMatMul
        (if dless (dlit 40) boundaryAI then MemoryBound else ComputingBound),
      Reference Convolution
        (if dless (dlit 60) boundaryAI then MemoryBound else ComputingBound)]"

text \<open>The representative intensity the specification gives each reference workload.\<close>

fun representative_intensity :: "workload \<Rightarrow> double" where
  "representative_intensity VectorAdd = dlit (33 / 100)"
| "representative_intensity MatVecMul = dlit 2"
| "representative_intensity SmallMatMul = dlit 8"
| "representative_intensity LargeMatMul = dlit 40"
| "representative_intensity Convolution = dlit 60"

text \<open>The body of the loop over the devices, lines 77 to 150, for one device.\<close>

definition deviceReport :: "int \<Rightarrow> cudaDeviceProp \<Rightarrow> out_item list" where
  "deviceReport device prop =
     (let theoreticalGFLOPS = getTheoreticalGFLOPS (major prop) (minor prop)
            (multiProcessorCount prop) (clockRate prop);
          memoryBandwidth = getMemoryBandwidth (memoryClockRate prop) (memoryBusWidth prop);
          boundaryAI = calculateBoundaryArithmeticIntensity theoreticalGFLOPS memoryBandwidth
      in [DeviceHeader device (name prop),
          HardwareSpec (major prop) (minor prop) (multiProcessorCount prop)
            (int32_div (clockRate prop) 1000) (int32_div (memoryClockRate prop) 1000)
            (memoryBusWidth prop)
            (totalGlobalMem prop div (1024 * 1024 * 1024)) (sharedMemPerBlock prop div 1024),
          Performance theoreticalGFLOPS memoryBandwidth boundaryAI,
          Thresholds boundaryAI boundaryAI]
         @ referenceWorkloads boundaryAI
         @ [Advice,
            RooflinePoints theoreticalGFLOPS memoryBandwidth memoryBandwidth
              boundaryAI theoreticalGFLOPS])"

text \<open>\<^verbatim>\<open>"\n" << std::string(60, '=') << "\n"\<close>\<close>

definition separator :: out_item where
  "separator = Rule (replicate 60 CHR ''='')"

section \<open>The main program\<close>

text \<open>
  The CUDA runtime is the program's environment: the status and result of the device
  count query, of the property query of each device, and the text of each status.
  A device index and the device count are \<^verbatim>\<open>int\<close>s on which the program only
  compares, increments below the count and subtracts one from a positive count, so they
  are modelled as integers.
\<close>

type_synonym cudaError_t = nat

definition cudaSuccess :: cudaError_t where
  "cudaSuccess = 0"

record cuda_runtime =
  cudaGetDeviceCount :: "cudaError_t \<times> int"
  cudaGetDeviceProperties :: "int \<Rightarrow> cudaError_t \<times> cudaDeviceProp"
  cudaGetErrorString :: "cudaError_t \<Rightarrow> string"

datatype api_call = GetDeviceCount | GetDeviceProperties int

text \<open>What a run leaves behind: the exit code, both streams and the queries it made.\<close>

record outcome =
  exit_code :: int
  stdout :: "out_item list"
  stderr :: "string list"
  api_calls :: "api_call list"

text \<open>The failure branch of \<^verbatim>\<open>CUDA_CHECK\<close>: the message on stderr, then \<^verbatim>\<open>exit(1)\<close>.\<close>

definition cuda_check_failed ::
  "cuda_runtime \<Rightarrow> out_item list \<Rightarrow> api_call list \<Rightarrow> cudaError_t \<Rightarrow> outcome" where
  "cuda_check_failed rt out calls error =
     \<lparr>exit_code = 1, stdout = out,
      stderr = [''CUDA error: '' @ cudaGetErrorString rt error], api_calls = calls\<rparr>"

function device_loop ::
  "cuda_runtime \<Rightarrow> int \<Rightarrow> int \<Rightarrow> out_item list \<Rightarrow> api_call list \<Rightarrow> outcome" where
  "device_loop rt deviceCount device out calls =
     (if device < deviceCount then
        (let (error, prop) = cudaGetDeviceProperties rt device;
             calls' = calls @ [GetDeviceProperties device]
         in if error \<noteq> cudaSuccess then cuda_check_failed rt out calls' error
            else device_loop rt deviceCount (device + 1)
                   (out @ deviceReport device prop
                        @ (if device < deviceCount - 1 then [separator] else []))
                   calls')
      else \<lparr>exit_code = 0, stdout = out, stderr = [], api_calls = calls\<rparr>)"
  by pat_completeness auto
termination
  by (relation "measure (\<lambda>(rt, deviceCount, device, out, calls). nat (deviceCount - device))") auto

definition main :: "cuda_runtime \<Rightarrow> outcome" where
  "main rt =
     (let (error, deviceCount) = cudaGetDeviceCount rt
      in if error \<noteq> cudaSuccess then cuda_check_failed rt [Title] [GetDeviceCount] error
         else if deviceCount = 0 then
           \<lparr>exit_code = 1, stdout = [Title, NoDeviceFound], stderr = [],
            api_calls = [GetDeviceCount]\<rparr>
         else device_loop rt deviceCount 0 [Title] [GetDeviceCount])"

text \<open>
  Sections joined the way the specification words it: a rule between two consecutive
  sections, none after the last.
\<close>

fun separated_by :: "'a \<Rightarrow> 'a list list \<Rightarrow> 'a list" where
  "separated_by sep [] = []"
| "separated_by sep [s] = s"
| "separated_by sep (s # t # rest) = s @ sep # separated_by sep (t # rest)"

declare device_loop.simps [simp del]

section \<open>Example devices\<close>

text \<open>An A100 as the CUDA runtime reports it: clock rates in kHz, sizes in bytes.\<close>

definition a100 :: cudaDeviceProp where
  "a100 = \<lparr>name = ''NVIDIA A100-SXM4-40GB'', major = 8, minor = 0, multiProcessorCount = 108,
     clockRate = 1410000, memoryClockRate = 1215000, memoryBusWidth = 5120,
     totalGlobalMem = 42505273344, sharedMemPerBlock = 49152\<rparr>"

text \<open>A machine with two such devices, and one on which the query of device 1 fails.\<close>

definition two_devices :: cuda_runtime where
  "two_devices = \<lparr>cudaGetDeviceCount = (cudaSuccess, 2),
     cudaGetDeviceProperties = (\<lambda>i. (cudaSuccess, a100)),
     cudaGetErrorString = (\<lambda>e. ''unknown error'')\<rparr>"

definition second_device_fails :: cuda_runtime where
  "second_device_fails = \<lparr>cudaGetDeviceCount = (cudaSuccess, 2),
     cudaGetDeviceProperties = (\<lambda>i. (if i = 1 then 101 else cudaSuccess, a100)),
     cudaGetErrorString = (\<lambda>e. if e = 101 then ''invalid device ordinal'' else ''unknown error'')\<rparr>"

section \<open>Properties of the rounding\<close>

lemma pow2_le_iff: "(2::rat) powi a \<le> 2 powi b \<longleftrightarrow> a \<le> b"
proof
  assume le: "(2::rat) powi a \<le> 2 powi b"
  show "a \<le> b"
  proof (rule ccontr)
    assume "\<not> a \<le> b"
    then have "(2::rat) powi b < 2 powi a" by (intro power_int_strict_increasing) auto
    with le show False by simp
  qed
next
  assume "a \<le> b"
  then show "(2::rat) powi a \<le> 2 powi b" by (intro power_int_increasing) auto
qed

lemma pow2_less_iff: "(2::rat) powi a < 2 powi b \<longleftrightarrow> a < b"
  by (metis pow2_le_iff linorder_not_le)

lemma of_int_bitlen_bounds:
  assumes "0 < a"
  shows "(2::rat) powi (bitlen a - 1) \<le> of_int a" and "of_int a < (2::rat) powi (bitlen a)"
proof -
  from bitlen_bounds [OF assms]
  have lo: "2 ^ nat (bitlen a - 1) \<le> a" and hi: "a < 2 ^ nat (bitlen a)" by auto
  have pos: "1 \<le> bitlen a" using assms bitlen_eq_zero_iff [of a] bitlen_nonneg [of a] by linarith
  have "(of_int (2 ^ nat (bitlen a - 1)) :: rat) \<le> of_int a" using lo by (simp only: of_int_le_iff)
  then show "(2::rat) powi (bitlen a - 1) \<le> of_int a"
    using pos by (simp add: power_int_nonneg_exp)
  have "(of_int a :: rat) < of_int (2 ^ nat (bitlen a))" using hi by (simp only: of_int_less_iff)
  then show "of_int a < (2::rat) powi (bitlen a)"
    using pos by (simp add: power_int_nonneg_exp)
qed

lemma ilog2_bounds:
  assumes "0 < q"
  shows "2 powi (ilog2 q) \<le> q \<and> q < 2 powi (ilog2 q + 1)"
proof -
  obtain a b where ab: "quotient_of q = (a, b)" by (cases "quotient_of q")
  have b: "0 < b" using ab by (rule quotient_of_denom_pos)
  have q: "q = of_int a / of_int b" using ab by (rule quotient_of_div)
  have a: "0 < a" using assms b q by (simp add: zero_less_divide_iff)
  define d where "d = bitlen a - bitlen b"
  note A = of_int_bitlen_bounds [OF a] and B = of_int_bitlen_bounds [OF b]
  have bq: "(0::rat) < of_int b" using b by simp
  have "q * of_int b = of_int a" using q bq by simp
  have up: "q < 2 powi (d + 1)"
  proof -
    have "of_int a < (2::rat) powi (bitlen a)" by (rule A)
    also have "\<dots> = 2 powi (d + 1) * 2 powi (bitlen b - 1)"
      by (simp add: d_def flip: power_int_add)
    also have "\<dots> \<le> 2 powi (d + 1) * of_int b"
      using B(1) by (simp add: mult_left_mono)
    finally have "q * of_int b < 2 powi (d + 1) * of_int b" using \<open>q * of_int b = of_int a\<close> by simp
    then show ?thesis using bq by simp
  qed
  have lo: "2 powi (d - 1) < q"
  proof -
    have "2 powi (d - 1) * of_int b < (2::rat) powi (d - 1) * 2 powi (bitlen b)"
      using B(2) by (simp add: mult_strict_left_mono)
    also have "\<dots> = 2 powi (bitlen a - 1)"
      by (simp add: d_def flip: power_int_add)
    also have "\<dots> \<le> of_int a" by (rule A)
    finally have "2 powi (d - 1) * of_int b < q * of_int b" using \<open>q * of_int b = of_int a\<close> by simp
    then show ?thesis using bq by simp
  qed
  show ?thesis
  proof (cases "q < 2 powi d")
    case True
    then have "ilog2 q = d - 1" by (simp add: ilog2_def ab d_def)
    then show ?thesis using True lo by simp
  next
    case False
    then have "ilog2 q = d" by (simp add: ilog2_def ab d_def)
    then show ?thesis using False up by simp
  qed
qed

lemma ilog2_unique:
  assumes "2 powi e \<le> q" and "q < 2 powi (e + 1)"
  shows "ilog2 q = e"
proof -
  have "(0::rat) < 2 powi e" by simp
  then have q: "0 < q" using assms(1) by linarith
  from ilog2_bounds [OF q] have 1: "2 powi (ilog2 q) \<le> q" and 2: "q < 2 powi (ilog2 q + 1)" by auto
  have "(2::rat) powi (ilog2 q) < 2 powi (e + 1)" using 1 assms(2) by linarith
  then have "ilog2 q < e + 1" by (simp only: pow2_less_iff)
  moreover have "(2::rat) powi e < 2 powi (ilog2 q + 1)" using 2 assms(1) by linarith
  then have "e < ilog2 q + 1" by (simp only: pow2_less_iff)
  ultimately show ?thesis by linarith
qed

lemma round_half_even_near:
  assumes "\<bar>x - of_int n\<bar> < 1 / 2"
  shows "round_half_even x = n"
proof (cases "of_int n \<le> x")
  case True
  then have "\<lfloor>x\<rfloor> = n" using assms by (intro floor_unique) auto
  then show ?thesis using assms True by (simp add: round_half_even_def Let_def)
next
  case False
  then have "\<lfloor>x\<rfloor> = n - 1" using assms by (intro floor_unique) auto
  then show ?thesis using assms False by (simp add: round_half_even_def Let_def)
qed

lemma round_half_even_floor:
  "\<lfloor>x\<rfloor> \<le> round_half_even x" "round_half_even x \<le> \<lfloor>x\<rfloor> + 1"
  by (simp_all add: round_half_even_def Let_def)

lemma round_mag_normal:
  assumes lo: "2 powi e \<le> m" and hi: "m < 2 powi (e + 1)" and e: "- 1022 \<le> e"
  shows "round_mag m = of_int (round_half_even (m / 2 powi (e - 52))) * 2 powi (e - 52)"
  using e by (simp add: round_mag_def ilog2_unique [OF lo hi] Let_def max_def)

lemma round_mag_eqI:
  assumes lo: "2 ^ 52 * 2 powi j \<le> m" and hi: "m < 2 ^ 53 * 2 powi j" and j: "- 1074 \<le> j"
    and near: "\<bar>m / 2 powi j - of_int n\<bar> < 1 / 2"
  shows "round_mag m = of_int n * 2 powi j"
proof -
  have 1: "(2::rat) powi (j + 52) = 2 ^ 52 * 2 powi j"
    by (simp add: power_int_add)
  have 2: "(2::rat) powi (j + 52 + 1) = 2 ^ 53 * 2 powi j"
    by (simp add: power_int_add)
  have "round_mag m = of_int (round_half_even (m / 2 powi (j + 52 - 52))) * 2 powi (j + 52 - 52)"
    by (rule round_mag_normal) (use lo hi j 1 2 in simp_all)
  then show ?thesis by (simp add: round_half_even_near [OF near])
qed

lemma round_mag_bounds:
  assumes lo: "2 powi e \<le> m" and hi: "m < 2 powi (e + 1)" and e: "- 1022 \<le> e"
  shows "2 powi e \<le> round_mag m" and "round_mag m \<le> 2 powi (e + 1)"
proof -
  let ?u = "(2::rat) powi (e - 52)"
  let ?x = "m / ?u"
  have u: "0 < ?u" by simp
  have e1: "(2::rat) powi e = 2 ^ 52 * ?u" 
    using power_int_add [of "2::rat" 52 "e - 52"] by simp
  have e2: "(2::rat) powi (e + 1) = 2 ^ 53 * ?u"
    using power_int_add [of "2::rat" 53 "e - 52"] by (simp add: add.commute)
  have x1: "2 ^ 52 \<le> ?x" using lo u by (simp add: e1 pos_le_divide_eq)
  have x2: "?x < 2 ^ 53" using hi u by (simp add: e2 pos_divide_less_eq)
  have "(2::int) ^ 52 \<le> \<lfloor>?x\<rfloor>" using x1 by (simp add: le_floor_iff)
  then have r1: "2 ^ 52 \<le> round_half_even ?x" using round_half_even_floor(1) [of ?x] by linarith
  have "\<lfloor>?x\<rfloor> < (2::int) ^ 53" using x2 by (simp add: floor_less_iff)
  then have r2: "round_half_even ?x \<le> 2 ^ 53" using round_half_even_floor(2) [of ?x] by linarith
  have rm: "round_mag m = of_int (round_half_even ?x) * ?u"
    by (rule round_mag_normal [OF lo hi e])
  have "(2::rat) ^ 52 \<le> of_int (round_half_even ?x)" using r1 by (metis of_int_le_iff of_int_numeral of_int_power)
  then show "2 powi e \<le> round_mag m" unfolding rm e1 using u by (simp add: mult_right_mono)
  have "of_int (round_half_even ?x) \<le> (2::rat) ^ 53" using r2 by (metis of_int_le_iff of_int_numeral of_int_power)
  then show "round_mag m \<le> 2 powi (e + 1)" unfolding rm e2 using u by (simp add: mult_right_mono)
qed

lemma round_mag_range:
  assumes lo: "2 powi a \<le> m" and hi: "m < 2 powi b" and a: "- 1022 \<le> a"
  shows "2 powi a \<le> round_mag m" and "round_mag m \<le> 2 powi b"
proof -
  have m: "0 < m" using lo zero_less_power_int [of "2::rat" a] by linarith
  define e where "e = ilog2 m"
  from ilog2_bounds [OF m] have 1: "2 powi e \<le> m" and 2: "m < 2 powi (e + 1)" by (auto simp: e_def)
  have "(2::rat) powi a < 2 powi (e + 1)" using lo 2 by linarith
  then have ae: "a \<le> e" using pow2_less_iff [of a "e + 1"] by simp
  have "(2::rat) powi e < 2 powi b" using hi 1 by linarith
  then have eb: "e + 1 \<le> b" using pow2_less_iff [of e b] by simp
  have e: "- 1022 \<le> e" using a ae by simp
  note B = round_mag_bounds [OF 1 2 e]
  have "(2::rat) powi a \<le> 2 powi e" using ae by (simp only: pow2_le_iff)
  then show "2 powi a \<le> round_mag m" using B(1) by linarith
  have "(2::rat) powi (e + 1) \<le> 2 powi b" using eb by (simp only: pow2_le_iff)
  then show "round_mag m \<le> 2 powi b" using B(2) by linarith
qed

lemma round_mag_of_int:
  assumes n: "0 < n" and n53: "n \<le> 2 ^ 53"
  shows "round_mag (of_int n) = of_int n"
proof (cases "n = 2 ^ 53")
  case True
  have "round_mag (2 ^ 53) = of_int (2 ^ 52) * 2 powi 1"
    by (rule round_mag_eqI) simp_all
  then show ?thesis using True by simp
next
  case False
  then have n53: "n < 2 ^ 53" using n53 by simp
  let ?m = "of_int n :: rat"
  have m: "0 < ?m" using n by simp
  define e where "e = ilog2 ?m"
  from ilog2_bounds [OF m] have 1: "2 powi e \<le> ?m" and 2: "?m < 2 powi (e + 1)" by (auto simp: e_def)
  have "(1::rat) \<le> ?m" using n by (metis of_int_1 of_int_le_iff int_one_le_iff_zero_less)
  then have "(2::rat) powi 0 < 2 powi (e + 1)" using 2 by simp
  then have e0: "0 \<le> e" using pow2_less_iff [of 0 "e + 1"] by simp
  have "?m < 2 ^ 53" using n53 by (metis of_int_less_iff of_int_numeral of_int_power)
  then have "(2::rat) powi e < 2 powi 53" using 1 by simp
  then have e52: "e \<le> 52" using pow2_less_iff [of e 53] by simp
  define k where "k = nat (52 - e)"
  have u: "(2::rat) powi (e - 52) = 1 / 2 ^ k"
    using e52 by (simp add: k_def power_int_def field_simps)
  have x: "?m / 2 powi (e - 52) = of_int (n * 2 ^ k)" by (simp add: u)
  have "round_mag ?m = of_int (round_half_even (?m / 2 powi (e - 52))) * 2 powi (e - 52)"
    by (rule round_mag_normal [OF 1 2]) (use e0 in simp)
  also have "round_half_even (?m / 2 powi (e - 52)) = n * 2 ^ k"
    unfolding x by (rule round_half_even_near) simp
  finally show ?thesis by (simp add: u)
qed

lemma round_double_normal:
  assumes lo: "2 powi a \<le> m" and hi: "m < 2 powi b" and a: "- 1022 \<le> a" and b: "b \<le> 1023"
  shows "round_double neg m = Fin (if neg then - round_mag m else round_mag m)"
proof -
  note R = round_mag_range [OF lo hi a]
  have pa: "(0::rat) < 2 powi a" by simp
  have m: "m \<noteq> 0" using lo pa by linarith
  have r0: "round_mag m \<noteq> 0" using R(1) pa by linarith
  have "(2::rat) powi b \<le> 2 powi 1023" using b by (simp only: pow2_le_iff)
  also have "\<dots> < 2 powi 1024" by (simp only: pow2_less_iff)
  finally have "round_mag m < 2 ^ 1024" using R(2) by simp
  then show ?thesis using m r0 by (simp add: round_double_def Let_def)
qed

lemma round_double_of_int:
  assumes "0 < n" and "n \<le> 2 ^ 53"
  shows "round_double neg (of_int n) = Fin (if neg then - of_int n else of_int n)"
proof -
  have 1: "(2::rat) powi 0 \<le> of_int n" using assms(1) by (metis power_int_0_right of_int_1 of_int_le_iff int_one_le_iff_zero_less)
  have "(of_int n :: rat) \<le> 2 ^ 53" using assms(2) by (metis of_int_le_iff of_int_numeral of_int_power)
  also have "\<dots> < 2 powi 54" by simp
  finally have 2: "(of_int n :: rat) < 2 powi 54" .
  show ?thesis
    using round_double_normal [OF 1 2, of neg] by (simp add: round_mag_of_int [OF assms])
qed

lemma dlit_of_int:
  assumes "\<bar>n\<bar> \<le> 2 ^ 53"
  shows "dlit (of_int n) = Fin (of_int n)"
proof (cases "n = 0")
  case True
  then show ?thesis by (simp add: dlit_def round_double_def dzero_def)
next
  case False
  then have "0 < \<bar>n\<bar>" by simp
  from round_double_of_int [OF this assms, of "n < 0"]
  show ?thesis by (simp add: dlit_def abs_if flip: of_int_abs split: if_splits)
qed

lemma dlit_numeral [simp]:
  "\<bar>numeral k :: int\<bar> \<le> 2 ^ 53 \<Longrightarrow> dlit (numeral k) = Fin (numeral k)"
  using dlit_of_int [of "numeral k"] by simp

lemma dlit_eqI:
  assumes lo: "2 ^ 52 * 2 powi j \<le> q" and hi: "q < 2 ^ 53 * 2 powi j"
    and j: "- 1074 \<le> j" "j \<le> 970"
    and near: "\<bar>q / 2 powi j - of_int n\<bar> < 1 / 2"
  shows "dlit q = Fin (of_int n * 2 powi j)"
proof -
  have 1: "(2::rat) powi (j + 52) = 2 ^ 52 * 2 powi j"
    by (simp add: power_int_add)
  have 2: "(2::rat) powi (j + 53) = 2 ^ 53 * 2 powi j"
    by (simp add: power_int_add)
  have "(0::rat) < 2 ^ 52 * 2 powi j" by simp
  then have q: "0 < q" using lo by linarith
  have lo': "2 powi (j + 52) \<le> q" using lo by (simp only: 1)
  have hi': "q < 2 powi (j + 53)" using hi by (simp only: 2)
  have ja: "- 1022 \<le> j + 52" and jb: "j + 53 \<le> 1023" using j by linarith+
  have "round_double False q = Fin (round_mag q)"
    using round_double_normal [OF lo' hi' ja jb, of False] by simp
  then show ?thesis
    using q by (simp add: dlit_def round_mag_eqI [OF lo hi j(1) near])
qed

lemma dlit_minus_eqI:
  assumes lo: "2 ^ 52 * 2 powi j \<le> q" and hi: "q < 2 ^ 53 * 2 powi j"
    and j: "- 1074 \<le> j" "j \<le> 970"
    and near: "\<bar>q / 2 powi j - of_int n\<bar> < 1 / 2"
  shows "dlit (- q) = Fin (- (of_int n * 2 powi j))"
proof -
  have 1: "(2::rat) powi (j + 52) = 2 ^ 52 * 2 powi j"
    by (simp add: power_int_add)
  have 2: "(2::rat) powi (j + 53) = 2 ^ 53 * 2 powi j"
    by (simp add: power_int_add)
  have "(0::rat) < 2 ^ 52 * 2 powi j" by simp
  then have q: "0 < q" using lo by linarith
  have lo': "2 powi (j + 52) \<le> q" using lo by (simp only: 1)
  have hi': "q < 2 powi (j + 53)" using hi by (simp only: 2)
  have ja: "- 1022 \<le> j + 52" and jb: "j + 53 \<le> 1023" using j by linarith+
  have "round_double True q = Fin (- round_mag q)"
    using round_double_normal [OF lo' hi' ja jb, of True] by simp
  then show ?thesis
    using q by (simp add: dlit_def round_mag_eqI [OF lo hi j(1) near])
qed

lemma dlit_0 [simp]: "dlit 0 = Fin 0"
  by (simp add: dlit_def round_double_def dzero_def)

lemma dmul_int_2:
  assumes "\<bar>t\<bar> \<le> 2 ^ 52"
  shows "dmul (Fin (of_int t)) (dlit 2) = Fin (of_int (2 * t))"
proof (cases "t = 0")
  case True
  then show ?thesis
    by (simp add: dmul_def is_inf_def round_double_def dzero_def)
next
  case False
  then have pos: "0 < 2 * \<bar>t\<bar>" by simp
  have le: "2 * \<bar>t\<bar> \<le> 2 ^ 53" using assms by simp
  have "dmul (Fin (of_int t)) (dlit 2) = round_double (t < 0) (of_int (2 * \<bar>t\<bar>))"
    by (simp add: dmul_def is_inf_def mult.commute)
  also have "\<dots> = Fin (of_int (2 * t))"
    unfolding round_double_of_int [OF pos le] by (simp add: abs_if)
  finally show ?thesis .
qed

lemma ddiv_Fin_pos:
  assumes "0 < b"
  shows "ddiv (Fin a) (Fin b) = dlit (a / b)"
  using assms
  by (simp add: ddiv_def dlit_def is_inf_def is_zero_def divide_less_0_iff abs_if
      zero_less_divide_iff)

lemma dmul_Fin_nonneg:
  assumes "0 \<le> a" and "0 \<le> b"
  shows "dmul (Fin a) (Fin b) = dlit (a * b)"
proof -
  have nn: "\<not> a * b < 0" using assms by (simp add: not_less)
  show ?thesis using assms by (simp add: dmul_def dlit_def is_inf_def not_less abs_mult nn)
qed

lemma dlit_range:
  assumes lo: "2 powi a \<le> q" and hi: "q < 2 powi b" and a: "- 1022 \<le> a" and b: "b \<le> 1023"
  shows "\<exists>r. dlit q = Fin r \<and> 2 powi a \<le> r \<and> r \<le> 2 powi b"
proof -
  have "(0::rat) < 2 powi a" by simp
  then have q: "0 < q" using lo by linarith
  have "dlit q = Fin (round_mag q)"
    using round_double_normal [OF lo hi a b, of False] q by (simp add: dlit_def)
  then show ?thesis using round_mag_range [OF lo hi a] by simp
qed

lemma round_mag_nonneg:
  assumes "0 \<le> m"
  shows "0 \<le> round_mag m"
proof -
  have "0 \<le> m / 2 powi (max (ilog2 m) (- 1022) - 52)" using assms by simp
  then have "0 \<le> \<lfloor>m / 2 powi (max (ilog2 m) (- 1022) - 52)\<rfloor>" by simp
  then have "0 \<le> round_half_even (m / 2 powi (max (ilog2 m) (- 1022) - 52))"
    using round_half_even_floor(1) [of "m / 2 powi (max (ilog2 m) (- 1022) - 52)"] by linarith
  then show ?thesis by (simp add: round_mag_def Let_def)
qed

lemma round_double_pos:
  assumes "dless (Fin 0) (round_double s m)" and "0 \<le> m"
  shows "\<not> s" and "0 < m"
proof -
  note r = round_mag_nonneg [OF assms(2)]
  show "\<not> s"
    using assms(1) r
    by (auto simp: round_double_def dzero_def dinf_def Let_def split: if_splits)
  show "0 < m"
    using assms
    by (cases "m = 0") (auto simp: round_double_def dzero_def split: if_splits)
qed

lemma dlit_nonpos:
  assumes "q \<le> 0"
  shows "\<not> dless (Fin 0) (dlit q)"
proof
  assume a: "dless (Fin 0) (dlit q)"
  then have "dless (Fin 0) (round_double (q < 0) \<bar>q\<bar>)" by (simp add: dlit_def)
  from round_double_pos [OF this] have "\<not> q < 0" and "0 < \<bar>q\<bar>" by simp_all
  then show False using assms by simp
qed

lemma dmul_Fin_pos:
  assumes "dless (Fin 0) (dmul (Fin a) (Fin b))"
  shows "0 < a * b" and "dmul (Fin a) (Fin b) = dlit (a * b)"
proof -
  have d: "dmul (Fin a) (Fin b) = round_double ((a < 0) \<noteq> (b < 0)) (\<bar>a\<bar> * \<bar>b\<bar>)"
    by (simp add: dmul_def is_inf_def)
  from round_double_pos [OF assms [unfolded d]]
  have s: "(a < 0) = (b < 0)" and m: "0 < \<bar>a\<bar> * \<bar>b\<bar>" by simp_all
  from m have nz: "a \<noteq> 0" "b \<noteq> 0" by auto
  show pos: "0 < a * b" using s nz by (auto simp: zero_less_mult_iff)
  then have "\<bar>a\<bar> * \<bar>b\<bar> = a * b" by (simp flip: abs_mult)
  then show "dmul (Fin a) (Fin b) = dlit (a * b)"
    using pos s by (simp add: d dlit_def not_less_iff_gr_or_eq flip: abs_mult)
qed

lemma ddiv_Fin_pos_cases:
  assumes c: "0 < c" and pos: "dless (Fin 0) (ddiv x (Fin c))"
  shows "dless (Fin 0) x"
proof (cases x)
  case (Fin a)
  have "0 < a"
  proof (rule ccontr)
    assume "\<not> 0 < a"
    then have "a / c \<le> 0" using c by (simp add: divide_le_0_iff)
    from dlit_nonpos [OF this] show False using pos c by (simp add: Fin ddiv_Fin_pos)
  qed
  then show ?thesis by (simp add: Fin)
next
  case NegZero
  then show ?thesis using pos c
    by (simp add: ddiv_def is_inf_def is_zero_def round_double_def dzero_def)
next
  case PInf
  then show ?thesis by simp
next
  case NInf
  then show ?thesis using pos c by (simp add: ddiv_def is_inf_def dinf_def)
next
  case NaN
  then show ?thesis using pos by (simp add: ddiv_def)
qed

lemma dless_irrefl: "\<not> dless x x"
  by (cases x) simp_all

section \<open>The core count table\<close>

text \<open>
  C2. The core count is a pure lookup on the compute capability. The specification
  speaks of distinct values for every generation from 2 through 9. The table has an
  entry for the generations 2, 3, 5, 6, 7, 8 and 9: 32, 192, 128, 64 or 128 (minor 0
  or not), 64, 64 or 128 (minor 0 or not) and 128. Generation 4 has no entry and gets
  the default, and several generations share a value. Every other pair, generation 4
  included, gets the default 64; there is no failure.
\<close>

theorem coresPerSM_table:
  "coresPerSM 2 mn = 32 \<and> coresPerSM 3 mn = 192 \<and> coresPerSM 5 mn = 128
   \<and> coresPerSM 6 0 = 64 \<and> (mn \<noteq> 0 \<longrightarrow> coresPerSM 6 mn = 128)
   \<and> coresPerSM 7 mn = 64
   \<and> coresPerSM 8 0 = 64 \<and> (mn \<noteq> 0 \<longrightarrow> coresPerSM 8 mn = 128)
   \<and> coresPerSM 9 mn = 128
   \<and> (mj \<notin> {2, 3, 5, 6, 7, 8, 9} \<longrightarrow> coresPerSM mj mn = 64)"
  by (simp add: coresPerSM_def)

theorem coresPerSM_table_witness:
  "(1 :: int32) \<noteq> 0 \<and> coresPerSM 6 1 = 128 \<and> coresPerSM 8 1 = 128
   \<and> (4 :: int32) \<notin> {2, 3, 5, 6, 7, 8, 9} \<and> coresPerSM 4 1 = 64"
  using coresPerSM_table [of 1 4] by simp

text \<open>
  The values are not distinct for every generation from 2 through 9: generations 5 and
  9 have the same value, and generation 4 has the value of generation 7 and of an
  unknown generation, the default.
\<close>

theorem coresPerSM_generations_share_values:
  "coresPerSM 5 0 = coresPerSM 9 0 \<and> coresPerSM 4 0 = coresPerSM 7 0
   \<and> coresPerSM 4 0 = coresPerSM 10 0"
  by (simp add: coresPerSM_def)

section \<open>The peak throughput estimate\<close>

lemma sint_mult_exact:
  fixes a b :: int32
  assumes "- (2 ^ 31) \<le> sint a * sint b" and "sint a * sint b < 2 ^ 31"
  shows "sint (a * b) = sint a * sint b"
  using assms by (simp add: sint_word_mult signed_take_bit_int_eq_self)

lemma sint_int32_bounds:
  fixes x :: int32
  shows "- (2 ^ 31) \<le> sint x" and "sint x < 2 ^ 31"
  using sint_ge [of x] sint_lt [of x] by simp_all

lemma getTheoreticalGFLOPS_wrapped:
  "getTheoreticalGFLOPS mj mn mpc clk =
     dlit (of_int (2 * sint (coresPerSM mj mn * mpc * clk)) / 1000000)"
proof -
  let ?T = "coresPerSM mj mn * mpc * clk"
  have "\<bar>sint ?T\<bar> \<le> 2 ^ 52" using sint_int32_bounds [of ?T] by simp
  then have "dmul (double_of_int ?T) (dlit 2) = Fin (of_int (2 * sint ?T))"
    unfolding double_of_int_def by (rule dmul_int_2)
  then show ?thesis
    by (simp add: getTheoreticalGFLOPS_def Let_def ddiv_Fin_pos)
qed

lemma coresPerSM_cases:
  "coresPerSM mj mn = 32 \<or> coresPerSM mj mn = 64 \<or> coresPerSM mj mn = 128 \<or> coresPerSM mj mn = 192"
  by (simp add: coresPerSM_def)

lemma sint_coresPerSM_bounds: "32 \<le> sint (coresPerSM mj mn)" "sint (coresPerSM mj mn) \<le> 192"
  using coresPerSM_cases [of mj mn] by auto

lemma int32_product_exact:
  fixes c mpc clk :: int32
  assumes c: "0 < sint c" and mpc: "0 \<le> sint mpc" and clk: "0 \<le> sint clk"
    and fits: "sint c * sint mpc * sint clk \<le> 2 ^ 31 - 1"
  shows "sint (c * mpc * clk) = sint c * sint mpc * sint clk"
proof (cases "sint clk = 0")
  case True
  then have "clk = 0" by (metis sint_0 signed_word_eqI)
  then show ?thesis by simp
next
  case False
  then have clk1: "1 \<le> sint clk" using clk by simp
  have nn: "0 \<le> sint c * sint mpc" using c mpc by simp
  then have "sint c * sint mpc * 1 \<le> sint c * sint mpc * sint clk"
    using clk1 by (intro mult_left_mono) simp_all
  then have "sint c * sint mpc < 2 ^ 31" using fits by simp
  then have 1: "sint (c * mpc) = sint c * sint mpc"
    using nn by (intro sint_mult_exact) simp_all
  have "0 \<le> sint c * sint mpc * sint clk" using nn clk by simp
  then show ?thesis using fits 1 by (simp add: sint_mult_exact)
qed

lemma peak_A100_kHz: "peak_throughput 108 64 1410000 = Fin (5357876181687337 / 274877906944)"
  unfolding peak_throughput_def
  using dlit_eqI [of "- 38" "of_int (108 * 64 * 1410000 * 2) / 1000000" 5357876181687337] by simp

lemma gflops_A100_kHz: "getTheoreticalGFLOPS 8 0 108 1410000 = Fin (2542038795270767 / 1099511627776)"
  unfolding getTheoreticalGFLOPS_wrapped
  using dlit_eqI [of "- 41" "2 * 1155985408 / 1000000" 5084077590541534]
  by (simp add: coresPerSM_def)

lemma peak_A100_MHz: "peak_throughput 108 64 1410 = Fin (5486465210047833 / 281474976710656)"
  unfolding peak_throughput_def
  using dlit_eqI [of "- 48" "of_int (108 * 64 * 1410 * 2) / 1000000" 5486465210047833] by simp

lemma gflops_A100_MHz:
  "getTheoreticalGFLOPS 8 0 108 1410 = Fin (5486465210047833 / 281474976710656)"
  unfolding getTheoreticalGFLOPS_wrapped
  using dlit_eqI [of "- 48" "2 * 9745920 / 1000000" 5486465210047833]
  by (simp add: coresPerSM_def)

lemma gflops_zero_clock: "getTheoreticalGFLOPS 8 0 108 0 = Fin 0"
  by (simp add: getTheoreticalGFLOPS_wrapped)

lemma gflops_clock_310000:
  "getTheoreticalGFLOPS 8 0 108 310000 = Fin (4711891110136381 / 1099511627776)"
  unfolding getTheoreticalGFLOPS_wrapped
  using dlit_eqI [of "- 40" "2 * 2142720000 / 1000000" 4711891110136381]
  by (simp add: coresPerSM_def)

lemma gflops_clock_311000:
  "getTheoreticalGFLOPS 8 0 108 311000 = Fin (- (2358821103430267 / 549755813888))"
proof -
  have "getTheoreticalGFLOPS 8 0 108 311000 = dlit (- (2 * 2145335296 / 1000000))"
    by (simp add: getTheoreticalGFLOPS_wrapped coresPerSM_def)
  also have "\<dots> = Fin (- (of_int 4717642206860534 * 2 powi (- 40)))"
    by (rule dlit_minus_eqI) simp_all
  finally show ?thesis by simp
qed

lemma gflops_109_multiprocessors:
  "getTheoreticalGFLOPS 8 0 109 310000 = Fin (- (4689213234212757 / 1099511627776))"
proof -
  have "getTheoreticalGFLOPS 8 0 109 310000 = dlit (- (2 * 2132407296 / 1000000))"
    by (simp add: getTheoreticalGFLOPS_wrapped coresPerSM_def)
  also have "\<dots> = Fin (- (of_int 4689213234212757 * 2 powi (- 40)))"
    by (rule dlit_minus_eqI) simp_all
  finally show ?thesis by simp
qed

text \<open>
  C1. The specification asks that \<^verbatim>\<open>getTheoreticalGFLOPS\<close> return
  clusters \<times> cores per cluster \<times> clock rate \<times> 2 / 1e6 for all non-negative inputs.
  The program prints \<^verbatim>\<open>clockRate / 1000\<close> as MHz, so the clock rate it receives is in kHz.
  For an A100 (compute capability 8.0, 108 multiprocessors, 1410000 kHz) the 32-bit
  product \<^verbatim>\<open>totalCores * clockRate\<close> wraps, and the function returns about 2311.97
  where the formula gives about 19491.84.
\<close>

theorem getTheoreticalGFLOPS_A100_kHz_wraps:
  "getTheoreticalGFLOPS 8 0 108 1410000 = Fin (2542038795270767 / 1099511627776)
   \<and> peak_throughput 108 (sint (coresPerSM 8 0)) 1410000 = Fin (5357876181687337 / 274877906944)"
  using gflops_A100_kHz peak_A100_kHz by (simp add: coresPerSM_def)

text \<open>
  C7. The product \<^verbatim>\<open>totalCores * clockRate\<close> is a 32-bit product, converted to double
  only afterwards: the result is always the rounded formula applied to the wrapped
  product. It is the specification's formula whenever the inputs are non-negative and
  cores \<times> multiprocessors \<times> clock rate is at most \<open>2 ^ 31 - 1\<close>, and it differs from
  the formula for the A100 values 108 \<times> 64 \<times> 1410000, which exceed that bound.
\<close>

theorem getTheoreticalGFLOPS_int32_product:
  "getTheoreticalGFLOPS mj mn mpc clk =
     dlit (of_int (2 * sint (coresPerSM mj mn * mpc * clk)) / 1000000)
   \<and> (0 \<le> sint mpc \<and> 0 \<le> sint clk
        \<and> sint (coresPerSM mj mn) * sint mpc * sint clk \<le> 2 ^ 31 - 1
      \<longrightarrow> getTheoreticalGFLOPS mj mn mpc clk =
            peak_throughput (sint mpc) (sint (coresPerSM mj mn)) (sint clk))
   \<and> 2 ^ 31 - 1 < sint (coresPerSM 8 0) * sint (108 :: int32) * sint (1410000 :: int32)
   \<and> getTheoreticalGFLOPS 8 0 108 1410000 \<noteq> peak_throughput 108 (sint (coresPerSM 8 0)) 1410000"
proof (intro conjI impI)
  show "getTheoreticalGFLOPS mj mn mpc clk =
     dlit (of_int (2 * sint (coresPerSM mj mn * mpc * clk)) / 1000000)"
    by (rule getTheoreticalGFLOPS_wrapped)
next
  assume a: "0 \<le> sint mpc \<and> 0 \<le> sint clk
        \<and> sint (coresPerSM mj mn) * sint mpc * sint clk \<le> 2 ^ 31 - 1"
  have c: "0 < sint (coresPerSM mj mn)" using sint_coresPerSM_bounds(1) [of mj mn] by linarith
  have "sint (coresPerSM mj mn * mpc * clk) = sint (coresPerSM mj mn) * sint mpc * sint clk"
    using a by (intro int32_product_exact [OF c]) simp_all
  then show "getTheoreticalGFLOPS mj mn mpc clk =
            peak_throughput (sint mpc) (sint (coresPerSM mj mn)) (sint clk)"
    by (simp add: getTheoreticalGFLOPS_wrapped peak_throughput_def mult_ac)
next
  show "2 ^ 31 - 1 < sint (coresPerSM 8 0) * sint (108 :: int32) * sint (1410000 :: int32)"
    by (simp add: coresPerSM_def)
next
  show "getTheoreticalGFLOPS 8 0 108 1410000 \<noteq> peak_throughput 108 (sint (coresPerSM 8 0)) 1410000"
    using gflops_A100_kHz peak_A100_kHz by (simp add: coresPerSM_def)
qed

text \<open>
  The A100 values with the clock rate in MHz fit in 32 bits.
\<close>

theorem getTheoreticalGFLOPS_int32_product_witness:
  "0 \<le> sint (108 :: int32) \<and> 0 \<le> sint (1410 :: int32)
   \<and> sint (coresPerSM 8 0) * sint (108 :: int32) * sint (1410 :: int32) \<le> 2 ^ 31 - 1
   \<and> getTheoreticalGFLOPS 8 0 108 1410 = Fin (5486465210047833 / 281474976710656)"
proof -
  have h: "0 \<le> sint (108 :: int32) \<and> 0 \<le> sint (1410 :: int32)
     \<and> sint (coresPerSM 8 0) * sint (108 :: int32) * sint (1410 :: int32) \<le> 2 ^ 31 - 1"
    by (simp add: coresPerSM_def)
  with getTheoreticalGFLOPS_int32_product [of 8 0 108 1410]
  have "getTheoreticalGFLOPS 8 0 108 1410 =
      peak_throughput (sint (108 :: int32)) (sint (coresPerSM 8 0)) (sint (1410 :: int32))"
    by blast
  also have "\<dots> = peak_throughput 108 64 1410" by (simp add: coresPerSM_def)
  also note peak_A100_MHz
  finally show ?thesis using h by blast
qed

text \<open>
  C9. The specification asks that the throughput estimate increase with the clock rate
  and with the core count. On 108 multiprocessors of 64 cores, raising the clock rate
  from 310000 to 311000 kHz takes the 32-bit product past \<open>2 ^ 31 - 1\<close>: the estimate
  falls from about 4285.44 to about -4290.67. Raising the number of multiprocessors from
  108 to 109 at 310000 kHz does the same: the estimate falls to about -4264.81.
\<close>

theorem getTheoreticalGFLOPS_falls_with_clock:
  "sint (310000 :: int32) \<le> sint (311000 :: int32)
   \<and> getTheoreticalGFLOPS 8 0 108 310000 = Fin (4711891110136381 / 1099511627776)
   \<and> getTheoreticalGFLOPS 8 0 108 311000 = Fin (- (2358821103430267 / 549755813888))
   \<and> dless (getTheoreticalGFLOPS 8 0 108 311000) (getTheoreticalGFLOPS 8 0 108 310000)
   \<and> sint (108 :: int32) \<le> sint (109 :: int32)
   \<and> getTheoreticalGFLOPS 8 0 109 310000 = Fin (- (4689213234212757 / 1099511627776))
   \<and> dless (getTheoreticalGFLOPS 8 0 109 310000) (getTheoreticalGFLOPS 8 0 108 310000)"
  by (simp add: gflops_clock_310000 gflops_clock_311000 gflops_109_multiprocessors)

section \<open>The peak bandwidth estimate\<close>

lemma eight_thousand: "dmul (dlit 8) (dlit 1000) = Fin 8000"
  by (simp add: dmul_Fin_nonneg)

lemma getMemoryBandwidth_rounded:
  assumes m: "0 \<le> sint m" and w: "0 \<le> sint w"
  shows "getMemoryBandwidth m w = dlit (dval (dlit (of_int (sint m * 2 * sint w))) / 8000)"
    and "is_finite (getMemoryBandwidth m w)"
proof -
  let ?P = "sint m * 2 * sint w"
  have m52: "\<bar>sint m\<bar> \<le> 2 ^ 52" using sint_int32_bounds [of m] by simp
  have a: "(0::rat) \<le> of_int (2 * sint m)" unfolding of_int_0_le_iff using m by linarith
  have b: "(0::rat) \<le> of_int (sint w)" unfolding of_int_0_le_iff using w .
  have "dmul (Fin (of_int (2 * sint m))) (Fin (of_int (sint w))) =
      dlit (of_int (2 * sint m) * of_int (sint w))"
    by (rule dmul_Fin_nonneg [OF a b])
  also have "\<dots> = dlit (of_int ?P)" by (simp add: mult_ac)
  finally have "dmul (dmul (double_of_int m) (dlit 2)) (double_of_int w) = dlit (of_int ?P)"
    unfolding double_of_int_def dmul_int_2 [OF m52] .
  then have g: "getMemoryBandwidth m w = ddiv (dlit (of_int ?P)) (Fin 8000)"
    unfolding getMemoryBandwidth_def eight_thousand by simp
  have P0: "0 \<le> ?P" using m w by simp
  have "sint m * sint w \<le> 2 ^ 31 * 2 ^ 31"
    using m w sint_int32_bounds(2) [of m] sint_int32_bounds(2) [of w]
    by (intro mult_mono) simp_all
  then have P63: "?P < 2 ^ 64" by simp
  have "getMemoryBandwidth m w = dlit (dval (dlit (of_int ?P)) / 8000)
      \<and> is_finite (getMemoryBandwidth m w)"
  proof (cases "?P = 0")
    case True
    then show ?thesis unfolding g True by (simp add: ddiv_Fin_pos is_finite_def)
  next
    case False
    then have "1 \<le> ?P" using P0 by linarith
    then have lo: "2 powi 0 \<le> (of_int ?P :: rat)"
      by (metis power_int_0_right of_int_1 of_int_le_iff)
    have "(of_int ?P :: rat) < 2 ^ 64" using P63 by (metis of_int_less_iff of_int_numeral of_int_power)
    then have hi: "(of_int ?P :: rat) < 2 powi 64" by simp
    from dlit_range [OF lo hi] obtain r where r: "dlit (of_int ?P) = Fin r"
      and r1: "2 powi 0 \<le> r" and r2: "r \<le> 2 powi 64" by auto
    have eq: "getMemoryBandwidth m w = dlit (r / 8000)"
      unfolding g r by (simp add: ddiv_Fin_pos)
    have "2 powi (- 13) \<le> 1 / (8000::rat)" by (simp add: power_int_minus)
    also have "\<dots> \<le> r / 8000" using r1 by (simp add: divide_right_mono)
    finally have q1: "2 powi (- 13) \<le> r / 8000" .
    have "r / 8000 \<le> 2 powi 64 / 8000" using r2 by (simp add: divide_right_mono)
    also have "\<dots> < 2 powi 52" by simp
    finally have q2: "r / 8000 < 2 powi 52" .
    from dlit_range [OF q1 q2] obtain s where "dlit (r / 8000) = Fin s" by auto
    then show ?thesis using eq r by (simp add: is_finite_def)
  qed
  then show "getMemoryBandwidth m w = dlit (dval (dlit (of_int (sint m * 2 * sint w))) / 8000)"
    and "is_finite (getMemoryBandwidth m w)" by blast+
qed

lemma dlit_1555: "dlit (15552 / 10) = Fin (6839841934068941 / 4398046511104)"
  using dlit_eqI [of "- 42" "15552 / 10" 6839841934068941] by simp

lemma bandwidth_1215_5120:
  "getMemoryBandwidth 1215 5120 = Fin (6839841934068941 / 4398046511104)"
proof -
  have "getMemoryBandwidth 1215 5120 =
      dlit (dval (dlit (of_int (sint (1215 :: int32) * 2 * sint (5120 :: int32)))) / 8000)"
    by (rule getMemoryBandwidth_rounded) simp_all
  then have "getMemoryBandwidth 1215 5120 = dlit (15552 / 10)" by simp
  then show ?thesis by (simp only: dlit_1555)
qed

lemma bandwidth_A100: "getMemoryBandwidth 1215000 5120 = Fin 1555200"
proof -
  have "getMemoryBandwidth 1215000 5120 =
      dlit (dval (dlit (of_int (sint (1215000 :: int32) * 2 * sint (5120 :: int32)))) / 8000)"
    by (rule getMemoryBandwidth_rounded) simp_all
  then show ?thesis by simp
qed

text \<open>
  C4. For non-negative inputs \<^verbatim>\<open>getMemoryBandwidth\<close> returns
  memory clock \<times> 2 \<times> bus width / 8000 as binary64 arithmetic computes it: the product
  rounded, then the quotient rounded, and the result is finite. The product is exact up
  to \<open>2 ^ 53\<close>, and then the result is the exact quotient rounded once. For the memory
  clock 1215 and the bus width 5120 the result is the double that the literal 1555.2
  denotes.
\<close>

theorem getMemoryBandwidth_formula:
  assumes m: "0 \<le> sint m" and w: "0 \<le> sint w"
  shows "getMemoryBandwidth m w = dlit (dval (dlit (of_int (sint m * 2 * sint w))) / 8000)
       \<and> is_finite (getMemoryBandwidth m w)
       \<and> (sint m * 2 * sint w \<le> 2 ^ 53 \<longrightarrow>
            getMemoryBandwidth m w = peak_bandwidth (sint m) (sint w))
       \<and> getMemoryBandwidth 1215 5120 = dlit (15552 / 10)"
proof (intro conjI impI)
  show 1: "getMemoryBandwidth m w = dlit (dval (dlit (of_int (sint m * 2 * sint w))) / 8000)"
    and "is_finite (getMemoryBandwidth m w)"
    by (rule getMemoryBandwidth_rounded [OF m w])+
  assume "sint m * 2 * sint w \<le> 2 ^ 53"
  moreover have "0 \<le> sint m * 2 * sint w" using m w by simp
  ultimately have "dlit (of_int (sint m * 2 * sint w)) = Fin (of_int (sint m * 2 * sint w))"
    by (intro dlit_of_int) simp
  then show "getMemoryBandwidth m w = peak_bandwidth (sint m) (sint w)"
    unfolding 1 peak_bandwidth_def by simp
next
  have "getMemoryBandwidth 1215 5120 =
      dlit (dval (dlit (of_int (sint (1215 :: int32) * 2 * sint (5120 :: int32)))) / 8000)"
    by (rule getMemoryBandwidth_rounded) simp_all
  then show "getMemoryBandwidth 1215 5120 = dlit (15552 / 10)"
    by simp
qed

text \<open>
  The values of the specification's second scenario.
\<close>

theorem getMemoryBandwidth_formula_witness:
  "0 \<le> sint (1215 :: int32) \<and> 0 \<le> sint (5120 :: int32)
   \<and> sint (1215 :: int32) * 2 * sint (5120 :: int32) \<le> 2 ^ 53
   \<and> getMemoryBandwidth 1215 5120 = peak_bandwidth 1215 5120
   \<and> getMemoryBandwidth 1215 5120 = Fin (6839841934068941 / 4398046511104)"
proof -
  have h: "0 \<le> sint (1215 :: int32)" "0 \<le> sint (5120 :: int32)"
    "sint (1215 :: int32) * 2 * sint (5120 :: int32) \<le> 2 ^ 53" by simp_all
  note T = getMemoryBandwidth_formula [OF h(1) h(2)]
  from T h(3) have "getMemoryBandwidth 1215 5120 =
      peak_bandwidth (sint (1215 :: int32)) (sint (5120 :: int32))" by blast
  then have 1: "getMemoryBandwidth 1215 5120 = peak_bandwidth 1215 5120" by simp
  from T have "getMemoryBandwidth 1215 5120 = dlit (15552 / 10)" by blast
  then have 2: "getMemoryBandwidth 1215 5120 = Fin (6839841934068941 / 4398046511104)"
    by (simp only: dlit_1555)
  show ?thesis using h 1 2 by blast
qed

section \<open>The ridge point\<close>

text \<open>
  C5. For a finite bandwidth \<open>b > 0\<close> the ridge point is the quotient of the
  throughput by \<open>b\<close>, rounded to the nearest double (a zero, an infinity or NaN as
  throughput gives itself), and for an infinite one it is zero. The division is not
  guarded: for a zero bandwidth the result
  is never finite, an infinity for a non-zero throughput and NaN for a zero or NaN
  throughput.
\<close>

theorem calculateBoundaryArithmeticIntensity_quotient:
  "(0 < q \<longrightarrow> calculateBoundaryArithmeticIntensity (Fin p) (Fin q) = dlit (p / q))
   \<and> (0 < q \<longrightarrow> calculateBoundaryArithmeticIntensity NegZero (Fin q) = NegZero)
   \<and> (0 < q \<longrightarrow> calculateBoundaryArithmeticIntensity PInf (Fin q) = PInf
                \<and> calculateBoundaryArithmeticIntensity NInf (Fin q) = NInf
                \<and> calculateBoundaryArithmeticIntensity NaN (Fin q) = NaN)
   \<and> calculateBoundaryArithmeticIntensity (Fin p) PInf = (if p < 0 then NegZero else Fin 0)
   \<and> (is_zero b \<longrightarrow> \<not> is_finite (calculateBoundaryArithmeticIntensity t b))
   \<and> (is_zero b \<and> \<not> is_zero t \<and> t \<noteq> NaN \<longrightarrow> is_inf (calculateBoundaryArithmeticIntensity t b))
   \<and> (is_zero b \<and> (is_zero t \<or> t = NaN) \<longrightarrow> calculateBoundaryArithmeticIntensity t b = NaN)"
proof (intro conjI impI)
  assume "0 < q"
  then show "calculateBoundaryArithmeticIntensity (Fin p) (Fin q) = dlit (p / q)"
    by (simp add: calculateBoundaryArithmeticIntensity_def ddiv_Fin_pos)
next
  assume "0 < q"
  then show "calculateBoundaryArithmeticIntensity NegZero (Fin q) = NegZero"
    by (simp add: calculateBoundaryArithmeticIntensity_def ddiv_def is_inf_def is_zero_def
        round_double_def dzero_def)
next
  assume "0 < q"
  then show "calculateBoundaryArithmeticIntensity PInf (Fin q) = PInf"
    "calculateBoundaryArithmeticIntensity NInf (Fin q) = NInf"
    "calculateBoundaryArithmeticIntensity NaN (Fin q) = NaN"
    by (simp_all add: calculateBoundaryArithmeticIntensity_def ddiv_def is_inf_def dinf_def)
next
  show "calculateBoundaryArithmeticIntensity (Fin p) PInf = (if p < 0 then NegZero else Fin 0)"
    by (simp add: calculateBoundaryArithmeticIntensity_def ddiv_def is_inf_def dzero_def)
next
  assume "is_zero b"
  then show "\<not> is_finite (calculateBoundaryArithmeticIntensity t b)"
    by (auto simp: calculateBoundaryArithmeticIntensity_def ddiv_def is_inf_def is_zero_def
        is_finite_def dinf_def)
next
  assume "is_zero b \<and> \<not> is_zero t \<and> t \<noteq> NaN"
  then show "is_inf (calculateBoundaryArithmeticIntensity t b)"
    by (auto simp: calculateBoundaryArithmeticIntensity_def ddiv_def is_inf_def is_zero_def
        dinf_def)
next
  assume "is_zero b \<and> (is_zero t \<or> t = NaN)"
  then show "calculateBoundaryArithmeticIntensity t b = NaN"
    by (auto simp: calculateBoundaryArithmeticIntensity_def ddiv_def is_inf_def is_zero_def)
qed

text \<open>
  One over four, one over zero and zero over zero.
\<close>

theorem calculateBoundaryArithmeticIntensity_quotient_witness:
  "(0::rat) < 4 \<and> calculateBoundaryArithmeticIntensity (Fin 1) (Fin 4) = Fin (1 / 4)
   \<and> is_zero (Fin 0) \<and> calculateBoundaryArithmeticIntensity (Fin 1) (Fin 0) = PInf
   \<and> calculateBoundaryArithmeticIntensity (Fin 0) (Fin 0) = NaN"
proof -
  have z: "is_zero (Fin 0)" "\<not> is_zero (Fin 1)" by (simp_all add: is_zero_def)
  have "dlit (1 / 4) = Fin (1 / 4)"
    using dlit_eqI [of "- 54" "1 / 4" "2 ^ 52"] by simp
  with calculateBoundaryArithmeticIntensity_quotient [of 4 1]
  have 1: "calculateBoundaryArithmeticIntensity (Fin 1) (Fin 4) = Fin (1 / 4)" by simp
  from calculateBoundaryArithmeticIntensity_quotient [of _ _ "Fin 0" "Fin 1"] z
  have "is_inf (calculateBoundaryArithmeticIntensity (Fin 1) (Fin 0))" by simp
  moreover have "calculateBoundaryArithmeticIntensity (Fin 1) (Fin 0) \<noteq> NInf"
    by (simp add: calculateBoundaryArithmeticIntensity_def ddiv_def is_inf_def is_zero_def dinf_def)
  ultimately have 2: "calculateBoundaryArithmeticIntensity (Fin 1) (Fin 0) = PInf"
    by (simp add: is_inf_def)
  from calculateBoundaryArithmeticIntensity_quotient [of _ _ "Fin 0" "Fin 0"] z
  have 3: "calculateBoundaryArithmeticIntensity (Fin 0) (Fin 0) = NaN" by simp
  show ?thesis using z 1 2 3 by simp
qed

lemma getTheoreticalGFLOPS_pos_range:
  assumes "dless (Fin 0) (getTheoreticalGFLOPS mj mn mpc clk)"
  shows "\<exists>p. getTheoreticalGFLOPS mj mn mpc clk = Fin p \<and> 2 powi (- 19) \<le> p \<and> p \<le> 2 powi 13"
proof -
  let ?T = "sint (coresPerSM mj mn * mpc * clk)"
  let ?q = "of_int (2 * ?T) / (1000000 :: rat)"
  have g: "getTheoreticalGFLOPS mj mn mpc clk = dlit ?q" by (rule getTheoreticalGFLOPS_wrapped)
  have "\<not> ?q \<le> 0" using assms dlit_nonpos [of ?q] unfolding g by blast
  then have "0 < ?q" by simp
  then have "(0::rat) < of_int (2 * ?T)" by (simp only: zero_less_divide_iff) simp
  then have "0 < 2 * ?T" by (simp only: of_int_0_less_iff)
  then have T1: "1 \<le> ?T" by linarith
  have T2: "?T < 2 ^ 31" by (rule sint_int32_bounds)
  have "(2::rat) \<le> of_int (2 * ?T)" using T1 by (metis of_int_numeral of_int_le_iff mult_2 one_add_one add_mono)
  then have "2 / 1000000 \<le> ?q" by (simp only: divide_right_mono zero_le_numeral)
  moreover have "(2::rat) powi (- 19) \<le> 2 / 1000000" by (simp add: power_int_minus)
  ultimately have lo: "2 powi (- 19) \<le> ?q" by linarith
  have "2 * ?T < 2 ^ 32" using T2 by simp
  then have "(of_int (2 * ?T) :: rat) < 2 ^ 32" by (metis of_int_less_iff of_int_numeral of_int_power)
  then have "?q < 2 ^ 32 / 1000000" by (simp only: divide_strict_right_mono zero_less_numeral)
  moreover have "(2::rat) ^ 32 / 1000000 < 2 powi 13" by simp
  ultimately have hi: "?q < 2 powi 13" by linarith
  from dlit_range [OF lo hi] show ?thesis unfolding g by simp
qed

lemma getMemoryBandwidth_pos_range:
  assumes "dless (Fin 0) (getMemoryBandwidth mc bw)"
  shows "\<exists>q. getMemoryBandwidth mc bw = Fin q \<and> 2 powi (- 13) \<le> q \<and> q \<le> 2 powi 52"
proof -
  let ?a = "of_int (2 * sint mc) :: rat" and ?b = "of_int (sint bw) :: rat"
  have m52: "\<bar>sint mc\<bar> \<le> 2 ^ 52" using sint_int32_bounds [of mc] by simp
  have g: "getMemoryBandwidth mc bw = ddiv (dmul (Fin ?a) (Fin ?b)) (Fin 8000)"
    unfolding getMemoryBandwidth_def eight_thousand double_of_int_def dmul_int_2 [OF m52] ..
  from ddiv_Fin_pos_cases [OF _ assms [unfolded g]]
  have "dless (Fin 0) (dmul (Fin ?a) (Fin ?b))" by simp
  from dmul_Fin_pos [OF this] have pos: "0 < ?a * ?b" and d: "dmul (Fin ?a) (Fin ?b) = dlit (?a * ?b)" .
  let ?P = "2 * sint mc * sint bw"
  have ab: "?a * ?b = of_int ?P" by simp
  have "0 < ?P" using pos unfolding ab by (simp only: of_int_0_less_iff)
  then have "1 \<le> ?P" by linarith
  then have lo: "2 powi 0 \<le> (of_int ?P :: rat)"
    by (metis power_int_0_right of_int_1 of_int_le_iff)
  have "\<bar>sint mc\<bar> * \<bar>sint bw\<bar> \<le> 2 ^ 31 * 2 ^ 31"
    using sint_int32_bounds [of mc] sint_int32_bounds [of bw]
    by (intro mult_mono) simp_all
  then have "\<bar>?P\<bar> \<le> 2 ^ 63" by (simp add: abs_mult mult.commute)
  then have "?P \<le> 2 ^ 63" using abs_ge_self [of ?P] by (rule order_trans [rotated])
  also have "(2::int) ^ 63 < 2 ^ 64" by simp
  finally have "?P < 2 ^ 64" .
  then have "(of_int ?P :: rat) < 2 ^ 64" by (metis of_int_less_iff of_int_numeral of_int_power)
  then have hi: "(of_int ?P :: rat) < 2 powi 64" by simp
  from dlit_range [OF lo hi] obtain r where r: "dlit (of_int ?P) = Fin r"
    and r1: "2 powi 0 \<le> r" and r2: "r \<le> 2 powi 64" by auto
  have eq: "getMemoryBandwidth mc bw = dlit (r / 8000)"
    unfolding g d ab r by (simp add: ddiv_Fin_pos)
  have "2 powi (- 13) \<le> 1 / (8000::rat)" by (simp add: power_int_minus)
  also have "\<dots> \<le> r / 8000" using r1 by (simp add: divide_right_mono)
  finally have q1: "2 powi (- 13) \<le> r / 8000" .
  have "r / 8000 \<le> 2 powi 64 / 8000" using r2 by (simp add: divide_right_mono)
  also have "\<dots> < 2 powi 52" by simp
  finally have q2: "r / 8000 < 2 powi 52" .
  from dlit_range [OF q1 q2] show ?thesis unfolding eq by simp
qed

text \<open>
  C8. The specification has the ridge point strictly positive whenever the bandwidth
  is. The ridge point is the throughput over the bandwidth, so this needs a positive
  throughput as well: for the estimates the program computes, a positive bandwidth and a
  positive throughput give a strictly positive ridge point.
\<close>

theorem ridge_point_positive:
  assumes bw: "dless (Fin 0) (getMemoryBandwidth mc bw)"
    and tp: "dless (Fin 0) (getTheoreticalGFLOPS mj mn mpc clk)"
  shows "dless (Fin 0)
           (calculateBoundaryArithmeticIntensity (getTheoreticalGFLOPS mj mn mpc clk)
              (getMemoryBandwidth mc bw))"
proof -
  from getTheoreticalGFLOPS_pos_range [OF tp] obtain p
    where p: "getTheoreticalGFLOPS mj mn mpc clk = Fin p"
      and p1: "2 powi (- 19) \<le> p" and p2: "p \<le> 2 powi 13" by auto
  from getMemoryBandwidth_pos_range [OF bw] obtain q
    where q: "getMemoryBandwidth mc bw = Fin q"
      and q1: "2 powi (- 13) \<le> q" and q2: "q \<le> 2 powi 52" by auto
  have qpos: "0 < q" using q1 zero_less_power_int [of "2::rat" "- 13"] by linarith
  have ppos: "0 < p" using p1 zero_less_power_int [of "2::rat" "- 19"] by linarith
  have "2 powi (- 71) = (2::rat) powi (- 19) / 2 powi 52"
    by (simp add: power_int_minus divide_simps)
  also have "\<dots> \<le> p / q"
    using p1 q2 qpos by (intro frac_le) simp_all
  finally have lo: "2 powi (- 71) \<le> p / q" .
  have "p / q \<le> 2 powi 13 / 2 powi (- 13)"
    using p2 q1 ppos by (intro frac_le) simp_all
  also have "\<dots> < (2::rat) powi 27" by (simp add: power_int_minus)
  finally have hi: "p / q < 2 powi 27" .
  from dlit_range [OF lo hi] obtain r where r: "dlit (p / q) = Fin r" and r1: "2 powi (- 71) \<le> r"
    by auto
  have "0 < r" using r1 zero_less_power_int [of "2::rat" "- 71"] by linarith
  then show ?thesis
    unfolding p q calculateBoundaryArithmeticIntensity_def using qpos r by (simp add: ddiv_Fin_pos)
qed

text \<open>
  The values of the specification's first two scenarios.
\<close>

theorem ridge_point_positive_witness:
  "dless (Fin 0) (getMemoryBandwidth 1215 5120)
   \<and> dless (Fin 0) (getTheoreticalGFLOPS 8 0 108 1410)
   \<and> dless (Fin 0)
        (calculateBoundaryArithmeticIntensity (getTheoreticalGFLOPS 8 0 108 1410)
           (getMemoryBandwidth 1215 5120))"
proof -
  have b: "dless (Fin 0) (getMemoryBandwidth 1215 5120)"
    by (simp add: bandwidth_1215_5120)
  have t: "dless (Fin 0) (getTheoreticalGFLOPS 8 0 108 1410)"
    by (simp add: gflops_A100_MHz)
  from ridge_point_positive [OF b t] b t show ?thesis by blast
qed

text \<open>
  A positive bandwidth alone is not enough: for a device that reports the clock rate 0
  the bandwidth is positive, and the throughput and the ridge point are zero.
\<close>

theorem ridge_point_zero_at_zero_clock:
  "dless (Fin 0) (getMemoryBandwidth 1215000 5120)
   \<and> calculateBoundaryArithmeticIntensity (getTheoreticalGFLOPS 8 0 108 0)
        (getMemoryBandwidth 1215000 5120) = Fin 0
   \<and> \<not> dless (Fin 0)
          (calculateBoundaryArithmeticIntensity (getTheoreticalGFLOPS 8 0 108 0)
             (getMemoryBandwidth 1215000 5120))"
  by (simp add: bandwidth_A100 gflops_zero_clock calculateBoundaryArithmeticIntensity_def
      ddiv_Fin_pos)

section \<open>The reference workloads\<close>

text \<open>
  C3. Each of the five reference workloads, with the representative intensities 0.33,
  2, 8, 40 and 60, is labelled memory bound if and only if its intensity is less than
  the ridge point, and compute bound otherwise; at a ridge point equal to its
  intensity it is compute bound. The report of a device holds these five lines for the
  ridge point of that device.
\<close>

theorem referenceWorkloads_labels:
  "referenceWorkloads R =
     map (\<lambda>w. Reference w (if dless (representative_intensity w) R
                            then MemoryBound else ComputingBound))
       [VectorAdd, MatVecMul, SmallMatMul, LargeMatMul, Convolution]
   \<and> (Reference w l \<in> set (referenceWorkloads R) \<longrightarrow>
        (l = MemoryBound \<longleftrightarrow> dless (representative_intensity w) R)
        \<and> (l = ComputingBound \<longleftrightarrow> \<not> dless (representative_intensity w) R))
   \<and> Reference w ComputingBound \<in> set (referenceWorkloads (representative_intensity w))
   \<and> map representative_intensity [VectorAdd, MatVecMul, SmallMatMul, LargeMatMul, Convolution]
       = [Fin (5944751508129055 / 18014398509481984), Fin 2, Fin 8, Fin 40, Fin 60]
   \<and> set (referenceWorkloads
            (calculateBoundaryArithmeticIntensity
               (getTheoreticalGFLOPS (major p) (minor p) (multiProcessorCount p) (clockRate p))
               (getMemoryBandwidth (memoryClockRate p) (memoryBusWidth p))))
       \<subseteq> set (deviceReport i p)"
proof (intro conjI impI)
  show 1: "referenceWorkloads R =
     map (\<lambda>w. Reference w (if dless (representative_intensity w) R
                            then MemoryBound else ComputingBound))
       [VectorAdd, MatVecMul, SmallMatMul, LargeMatMul, Convolution]" for R
    by (simp add: referenceWorkloads_def)
  assume "Reference w l \<in> set (referenceWorkloads R)"
  then have l: "l = (if dless (representative_intensity w) R then MemoryBound else ComputingBound)"
    unfolding 1 by auto
  show "l = MemoryBound \<longleftrightarrow> dless (representative_intensity w) R" using l by simp
  show "l = ComputingBound \<longleftrightarrow> \<not> dless (representative_intensity w) R" using l by simp
next
  have "referenceWorkloads R =
     map (\<lambda>w. Reference w (if dless (representative_intensity w) R
                            then MemoryBound else ComputingBound))
       [VectorAdd, MatVecMul, SmallMatMul, LargeMatMul, Convolution]" for R
    by (simp add: referenceWorkloads_def)
  then show "Reference w ComputingBound \<in> set (referenceWorkloads (representative_intensity w))"
    by (cases w) (simp_all only: dless_irrefl if_False list.map list.set insertI1 insertI2 insert_iff simp_thms)
next
  show "map representative_intensity [VectorAdd, MatVecMul, SmallMatMul, LargeMatMul, Convolution]
       = [Fin (5944751508129055 / 18014398509481984), Fin 2, Fin 8, Fin 40, Fin 60]"
    using dlit_eqI [of "- 54" "33 / 100" 5944751508129055] by simp
next
  show "set (referenceWorkloads
            (calculateBoundaryArithmeticIntensity
               (getTheoreticalGFLOPS (major p) (minor p) (multiProcessorCount p) (clockRate p))
               (getMemoryBandwidth (memoryClockRate p) (memoryBusWidth p))))
       \<subseteq> set (deviceReport i p)"
    unfolding deviceReport_def Let_def by auto
qed

text \<open>
  With the ridge point 10 the small matrix product is memory bound and the large one
  compute bound; with the ridge point 8 the small one is compute bound.
\<close>

theorem referenceWorkloads_labels_witness:
  "Reference SmallMatMul MemoryBound \<in> set (referenceWorkloads (Fin 10))
   \<and> dless (representative_intensity SmallMatMul) (Fin 10)
   \<and> Reference LargeMatMul ComputingBound \<in> set (referenceWorkloads (Fin 10))
   \<and> \<not> dless (representative_intensity LargeMatMul) (Fin 10)
   \<and> Reference SmallMatMul ComputingBound \<in> set (referenceWorkloads (Fin 8))"
proof -
  note T = referenceWorkloads_labels [of "Fin 10"]
  have 1: "Reference SmallMatMul MemoryBound \<in> set (referenceWorkloads (Fin 10))"
    "Reference LargeMatMul ComputingBound \<in> set (referenceWorkloads (Fin 10))"
    by (simp_all add: conjunct1 [OF T])
  from 1(1) referenceWorkloads_labels [of "Fin 10" SmallMatMul MemoryBound]
  have 2: "dless (representative_intensity SmallMatMul) (Fin 10)" by blast
  from 1(2) referenceWorkloads_labels [of "Fin 10" LargeMatMul ComputingBound]
  have 3: "\<not> dless (representative_intensity LargeMatMul) (Fin 10)" by blast
  from referenceWorkloads_labels [of "Fin 8" SmallMatMul]
  have 4: "Reference SmallMatMul ComputingBound \<in> set (referenceWorkloads (Fin 8))" by simp
  show ?thesis using 1 2 3 4 by blast
qed

section \<open>The loop over the devices\<close>

lemma device_loop_done:
  "\<not> d < n \<Longrightarrow> device_loop rt n d out calls =
     \<lparr>exit_code = 0, stdout = out, stderr = [], api_calls = calls\<rparr>"
  by (simp add: device_loop.simps)

lemma device_loop_fail_step:
  "d < n \<Longrightarrow> fst (cudaGetDeviceProperties rt d) \<noteq> cudaSuccess \<Longrightarrow>
   device_loop rt n d out calls =
     cuda_check_failed rt out (calls @ [GetDeviceProperties d]) (fst (cudaGetDeviceProperties rt d))"
  by (subst device_loop.simps) (simp add: case_prod_beta)

lemma device_loop_ok_step:
  "d < n \<Longrightarrow> fst (cudaGetDeviceProperties rt d) = cudaSuccess \<Longrightarrow>
   device_loop rt n d out calls =
     device_loop rt n (d + 1)
       (out @ deviceReport d (snd (cudaGetDeviceProperties rt d))
            @ (if d < n - 1 then [separator] else []))
       (calls @ [GetDeviceProperties d])"
  by (subst device_loop.simps) (simp add: case_prod_beta)

lemma device_loop_exit_code:
  "exit_code (device_loop rt n d out calls) =
     (if \<forall>i. d \<le> i \<and> i < n \<longrightarrow> fst (cudaGetDeviceProperties rt i) = cudaSuccess then 0 else 1)"
proof (induction "nat (n - d)" arbitrary: d out calls)
  case 0
  then have "\<not> d < n" by simp
  then show ?case by (simp add: device_loop_done)
next
  case (Suc m)
  then have dn: "d < n" by linarith
  show ?case
  proof (cases "fst (cudaGetDeviceProperties rt d) = cudaSuccess")
    case False
    moreover have "\<not> (\<forall>i. d \<le> i \<and> i < n \<longrightarrow> fst (cudaGetDeviceProperties rt i) = cudaSuccess)"
      using False dn by auto
    ultimately show ?thesis
      by (simp add: device_loop_fail_step [OF dn] cuda_check_failed_def)
  next
    case True
    have m: "m = nat (n - (d + 1))" using Suc.hyps(2) by linarith
    have "(\<forall>i. d \<le> i \<and> i < n \<longrightarrow> fst (cudaGetDeviceProperties rt i) = cudaSuccess)
        \<longleftrightarrow> (\<forall>i. d + 1 \<le> i \<and> i < n \<longrightarrow> fst (cudaGetDeviceProperties rt i) = cudaSuccess)"
    proof
      assume "\<forall>i. d \<le> i \<and> i < n \<longrightarrow> fst (cudaGetDeviceProperties rt i) = cudaSuccess"
      then show "\<forall>i. d + 1 \<le> i \<and> i < n \<longrightarrow> fst (cudaGetDeviceProperties rt i) = cudaSuccess" by simp
    next
      assume a: "\<forall>i. d + 1 \<le> i \<and> i < n \<longrightarrow> fst (cudaGetDeviceProperties rt i) = cudaSuccess"
      show "\<forall>i. d \<le> i \<and> i < n \<longrightarrow> fst (cudaGetDeviceProperties rt i) = cudaSuccess"
      proof (intro allI impI)
        fix i assume "d \<le> i \<and> i < n"
        then show "fst (cudaGetDeviceProperties rt i) = cudaSuccess"
          using a True by (cases "i = d") auto
      qed
    qed
    then show ?thesis
      using Suc.hyps(1) [OF m] by (simp add: device_loop_ok_step [OF dn True])
  qed
qed

lemma device_loop_success:
  assumes "\<forall>i. d \<le> i \<and> i < n \<longrightarrow> fst (cudaGetDeviceProperties rt i) = cudaSuccess"
  shows "device_loop rt n d out calls =
     \<lparr>exit_code = 0,
      stdout = out @ concat (map (\<lambda>i. deviceReport i (snd (cudaGetDeviceProperties rt i))
                                      @ (if i < n - 1 then [separator] else [])) [d..n - 1]),
      stderr = [],
      api_calls = calls @ map GetDeviceProperties [d..n - 1]\<rparr>"
  using assms
proof (induction "nat (n - d)" arbitrary: d out calls)
  case 0
  then have "\<not> d < n" by simp
  then show ?case by (simp add: device_loop_done)
next
  case (Suc m)
  then have dn: "d < n" by linarith
  have ok: "fst (cudaGetDeviceProperties rt d) = cudaSuccess" using Suc.prems dn by simp
  have m: "m = nat (n - (d + 1))" using Suc.hyps(2) by linarith
  have rest: "\<forall>i. d + 1 \<le> i \<and> i < n \<longrightarrow> fst (cudaGetDeviceProperties rt i) = cudaSuccess"
    using Suc.prems by simp
  have up: "[d..n - 1] = d # [d + 1..n - 1]" using dn by (simp add: upto_rec1)
  show ?case
    unfolding device_loop_ok_step [OF dn ok] Suc.hyps(1) [OF m rest] up by simp
qed

lemma device_loop_failure:
  assumes "d \<le> k" and "k < n"
    and "\<forall>i. d \<le> i \<and> i < k \<longrightarrow> fst (cudaGetDeviceProperties rt i) = cudaSuccess"
    and "fst (cudaGetDeviceProperties rt k) \<noteq> cudaSuccess"
  shows "device_loop rt n d out calls =
     cuda_check_failed rt
       (out @ concat (map (\<lambda>i. deviceReport i (snd (cudaGetDeviceProperties rt i)) @ [separator])
                       [d..k - 1]))
       (calls @ map GetDeviceProperties [d..k])
       (fst (cudaGetDeviceProperties rt k))"
  using assms
proof (induction "nat (k - d)" arbitrary: d out calls)
  case 0
  then have "d = k" by simp
  then show ?case using 0 by (simp add: device_loop_fail_step)
next
  case (Suc m)
  then have dk: "d < k" and dn: "d < n" by linarith+
  have ok: "fst (cudaGetDeviceProperties rt d) = cudaSuccess" using Suc.prems dk by simp
  have m: "m = nat (k - (d + 1))" using Suc.hyps(2) by linarith
  have rest: "\<forall>i. d + 1 \<le> i \<and> i < k \<longrightarrow> fst (cudaGetDeviceProperties rt i) = cudaSuccess"
    using Suc.prems by simp
  have up: "[d..k - 1] = d # [d + 1..k - 1]" "[d..k] = d # [d + 1..k]"
    using dk by (simp_all add: upto_rec1)
  have sep: "d < n - 1" using dk Suc.prems(2) by linarith
  have "d + 1 \<le> k" using dk by simp
  from Suc.hyps(1) [OF m this Suc.prems(2) rest Suc.prems(4)]
  show ?case
    unfolding device_loop_ok_step [OF dn ok] up using sep by simp
qed

text \<open>
  C6. Let the device count query return the status \<open>e\<close> and a non-negative count
  \<open>n\<close>. The program exits with 0 if and only if that query and the property query of each
  of the devices \<open>0, \<dots>, n - 1\<close> succeed and \<open>n\<close> is at least 1, and then every report is
  printed. Otherwise it exits with 1: when the count query fails, with its error text on
  stderr; when there is no device, with the message for that; and when the query of
  device \<open>k\<close> is the first to fail, with the error text of that query on stderr, after
  the reports of the devices before \<open>k\<close>, each query made once and none after \<open>k\<close>.
\<close>

theorem main_exit_code:
  assumes count: "cudaGetDeviceCount rt = (e, n)" and nonneg: "0 \<le> n"
  shows "(exit_code (main rt) = 0 \<longleftrightarrow>
            e = cudaSuccess \<and> 1 \<le> n
            \<and> (\<forall>i. 0 \<le> i \<and> i < n \<longrightarrow> fst (cudaGetDeviceProperties rt i) = cudaSuccess))
       \<and> (exit_code (main rt) \<noteq> 0 \<longrightarrow> exit_code (main rt) = 1)
       \<and> (e \<noteq> cudaSuccess \<longrightarrow>
            main rt = \<lparr>exit_code = 1, stdout = [Title],
                       stderr = [''CUDA error: '' @ cudaGetErrorString rt e],
                       api_calls = [GetDeviceCount]\<rparr>)
       \<and> (e = cudaSuccess \<and> n = 0 \<longrightarrow>
            main rt = \<lparr>exit_code = 1, stdout = [Title, NoDeviceFound], stderr = [],
                       api_calls = [GetDeviceCount]\<rparr>)
       \<and> (e = cudaSuccess \<and> 1 \<le> n
            \<and> (\<forall>i. 0 \<le> i \<and> i < n \<longrightarrow> fst (cudaGetDeviceProperties rt i) = cudaSuccess) \<longrightarrow>
            stderr (main rt) = []
            \<and> api_calls (main rt) = GetDeviceCount # map GetDeviceProperties [0..n - 1]
            \<and> (\<forall>i. 0 \<le> i \<and> i < n \<longrightarrow>
                  set (deviceReport i (snd (cudaGetDeviceProperties rt i))) \<subseteq> set (stdout (main rt))))
       \<and> (e = cudaSuccess \<and> 0 \<le> k \<and> k < n
            \<and> (\<forall>i. 0 \<le> i \<and> i < k \<longrightarrow> fst (cudaGetDeviceProperties rt i) = cudaSuccess)
            \<and> fst (cudaGetDeviceProperties rt k) \<noteq> cudaSuccess \<longrightarrow>
            main rt =
              \<lparr>exit_code = 1,
               stdout = Title # concat (map (\<lambda>i. deviceReport i (snd (cudaGetDeviceProperties rt i))
                                                   @ [separator]) [0..k - 1]),
               stderr = [''CUDA error: ''
                         @ cudaGetErrorString rt (fst (cudaGetDeviceProperties rt k))],
               api_calls = GetDeviceCount # map GetDeviceProperties [0..k]\<rparr>)"
proof (intro conjI impI)
  show "exit_code (main rt) = 0 \<longleftrightarrow>
            e = cudaSuccess \<and> 1 \<le> n
            \<and> (\<forall>i. 0 \<le> i \<and> i < n \<longrightarrow> fst (cudaGetDeviceProperties rt i) = cudaSuccess)"
    using nonneg
    by (auto simp: main_def count cuda_check_failed_def device_loop_exit_code)
next
  assume "exit_code (main rt) \<noteq> 0"
  then show "exit_code (main rt) = 1"
    by (auto simp: main_def count cuda_check_failed_def device_loop_exit_code split: if_splits)
next
  assume "e \<noteq> cudaSuccess"
  then show "main rt = \<lparr>exit_code = 1, stdout = [Title],
                       stderr = [''CUDA error: '' @ cudaGetErrorString rt e],
                       api_calls = [GetDeviceCount]\<rparr>"
    by (simp add: main_def count cuda_check_failed_def)
next
  assume "e = cudaSuccess \<and> n = 0"
  then show "main rt = \<lparr>exit_code = 1, stdout = [Title, NoDeviceFound], stderr = [],
                       api_calls = [GetDeviceCount]\<rparr>"
    by (simp add: main_def count)
next
  assume a: "e = cudaSuccess \<and> 1 \<le> n
            \<and> (\<forall>i. 0 \<le> i \<and> i < n \<longrightarrow> fst (cudaGetDeviceProperties rt i) = cudaSuccess)"
  then have m: "main rt = device_loop rt n 0 [Title] [GetDeviceCount]"
    by (simp add: main_def count)
  note m' = m [unfolded device_loop_success [of 0 n rt, OF conjunct2 [OF conjunct2 [OF a]]]]
  show "stderr (main rt) = []" by (simp add: m')
  show "api_calls (main rt) = GetDeviceCount # map GetDeviceProperties [0..n - 1]"
    by (simp add: m')
  show "\<forall>i. 0 \<le> i \<and> i < n \<longrightarrow>
          set (deviceReport i (snd (cudaGetDeviceProperties rt i))) \<subseteq> set (stdout (main rt))"
    by (auto simp: m')
next
  assume a: "e = cudaSuccess \<and> 0 \<le> k \<and> k < n
            \<and> (\<forall>i. 0 \<le> i \<and> i < k \<longrightarrow> fst (cudaGetDeviceProperties rt i) = cudaSuccess)
            \<and> fst (cudaGetDeviceProperties rt k) \<noteq> cudaSuccess"
  then have m: "main rt = device_loop rt n 0 [Title] [GetDeviceCount]"
    by (auto simp: main_def count)
  have "device_loop rt n 0 [Title] [GetDeviceCount] =
     cuda_check_failed rt
       ([Title] @ concat (map (\<lambda>i. deviceReport i (snd (cudaGetDeviceProperties rt i)) @ [separator])
                       [0..k - 1]))
       ([GetDeviceCount] @ map GetDeviceProperties [0..k])
       (fst (cudaGetDeviceProperties rt k))"
    using a by (intro device_loop_failure) simp_all
  then show "main rt =
              \<lparr>exit_code = 1,
               stdout = Title # concat (map (\<lambda>i. deviceReport i (snd (cudaGetDeviceProperties rt i))
                                                   @ [separator]) [0..k - 1]),
               stderr = [''CUDA error: ''
                         @ cudaGetErrorString rt (fst (cudaGetDeviceProperties rt k))],
               api_calls = GetDeviceCount # map GetDeviceProperties [0..k]\<rparr>"
    by (simp add: m cuda_check_failed_def)
qed

text \<open>
  Two devices, the query of the second failing; and two devices, both queries
  succeeding.
\<close>

theorem main_exit_code_witness:
  "cudaGetDeviceCount second_device_fails = (cudaSuccess, 2) \<and> (0::int) \<le> 2
   \<and> fst (cudaGetDeviceProperties second_device_fails 0) = cudaSuccess
   \<and> fst (cudaGetDeviceProperties second_device_fails 1) \<noteq> cudaSuccess
   \<and> main second_device_fails =
        \<lparr>exit_code = 1, stdout = Title # deviceReport 0 a100 @ [separator],
         stderr = [''CUDA error: invalid device ordinal''],
         api_calls = [GetDeviceCount, GetDeviceProperties 0, GetDeviceProperties 1]\<rparr>
   \<and> cudaGetDeviceCount two_devices = (cudaSuccess, 2)
   \<and> exit_code (main two_devices) = 0
   \<and> api_calls (main two_devices) = [GetDeviceCount, GetDeviceProperties 0, GetDeviceProperties 1]"
proof -
  have c1: "cudaGetDeviceCount second_device_fails = (cudaSuccess, 2)"
    by (simp add: second_device_fails_def)
  have c2: "cudaGetDeviceCount two_devices = (cudaSuccess, 2)"
    by (simp add: two_devices_def)
  have up: "[0..(1::int)] = [0, 1]" "[0..(0::int)] = [0]" by (simp_all add: upto_rec1)
  have q: "fst (cudaGetDeviceProperties second_device_fails 0) = cudaSuccess"
    "fst (cudaGetDeviceProperties second_device_fails 1) \<noteq> cudaSuccess"
    by (simp_all add: second_device_fails_def cudaSuccess_def)
  have "\<forall>i. 0 \<le> i \<and> i < 1 \<longrightarrow> fst (cudaGetDeviceProperties second_device_fails i) = cudaSuccess"
    by (simp add: second_device_fails_def)
  with main_exit_code [OF c1, of 1] q
  have 1: "main second_device_fails =
        \<lparr>exit_code = 1, stdout = Title # deviceReport 0 a100 @ [separator],
         stderr = [''CUDA error: invalid device ordinal''],
         api_calls = [GetDeviceCount, GetDeviceProperties 0, GetDeviceProperties 1]\<rparr>"
    by (simp add: up second_device_fails_def)
  have "\<forall>i. 0 \<le> i \<and> i < 2 \<longrightarrow> fst (cudaGetDeviceProperties two_devices i) = cudaSuccess"
    by (simp add: two_devices_def)
  with main_exit_code [OF c2, of 0]
  have 2: "exit_code (main two_devices) = 0"
    "api_calls (main two_devices) = [GetDeviceCount, GetDeviceProperties 0, GetDeviceProperties 1]"
    by (simp_all add: up)
  show ?thesis using c1 c2 q 1 2 by simp
qed

lemma separated_by_Cons:
  "secs \<noteq> [] \<Longrightarrow> separated_by sep (s # secs) = s @ sep # separated_by sep secs"
  by (cases secs) simp_all

lemma count_separated_by:
  assumes "\<forall>s \<in> set secs. sep \<notin> set s"
  shows "count_list (separated_by sep secs) sep = length secs - 1"
  using assms by (induction sep secs rule: separated_by.induct) simp_all

lemma last_separated_by:
  assumes "secs \<noteq> []" and "last secs \<noteq> []"
  shows "separated_by sep secs \<noteq> [] \<and> last (separated_by sep secs) = last (last secs)"
  using assms by (induction sep secs rule: separated_by.induct) (simp_all split: if_splits)

lemma sections_separated:
  assumes "d \<le> n - 1"
  shows "concat (map (\<lambda>i. f i @ (if i < n - 1 then [sep] else [])) [d..n - 1]) =
         separated_by sep (map f [d..n - 1])"
  using assms
proof (induction "nat (n - 1 - d)" arbitrary: d)
  case 0
  then have "d = n - 1" by simp
  then show ?case by simp
next
  case (Suc m)
  then have d: "d < n - 1" by linarith
  have m: "m = nat (n - 1 - (d + 1))" using Suc.hyps(2) by linarith
  have up: "[d..n - 1] = d # [d + 1..n - 1]" using d by (simp add: upto_rec1)
  have ne: "map f [d + 1..n - 1] \<noteq> []" using d by simp
  have "d + 1 \<le> n - 1" using d by simp
  from Suc.hyps(1) [OF m this] show ?case
    unfolding up using d by (simp add: separated_by_Cons [OF ne])
qed

lemma separator_notin_deviceReport: "separator \<notin> set (deviceReport i p)"
  by (simp add: deviceReport_def referenceWorkloads_def separator_def Let_def)

lemma last_deviceReport: "last (deviceReport i p) \<noteq> separator" "deviceReport i p \<noteq> []"
  by (simp_all add: deviceReport_def referenceWorkloads_def separator_def Let_def)

text \<open>
  C10. When all queries succeed on \<open>n \<ge> 1\<close> devices, the output is the title and the
  device sections with one rule between two consecutive sections: \<open>n - 1\<close> rules in
  all, none after the last section, and none for one device.
\<close>

theorem main_separators:
  assumes count: "cudaGetDeviceCount rt = (cudaSuccess, n)" and n: "1 \<le> n"
    and ok: "\<forall>i. 0 \<le> i \<and> i < n \<longrightarrow> fst (cudaGetDeviceProperties rt i) = cudaSuccess"
  shows "stdout (main rt) =
           Title # separated_by separator
                     (map (\<lambda>i. deviceReport i (snd (cudaGetDeviceProperties rt i))) [0..n - 1])
       \<and> count_list (stdout (main rt)) separator = nat (n - 1)
       \<and> last (stdout (main rt)) \<noteq> separator"
proof -
  let ?secs = "map (\<lambda>i. deviceReport i (snd (cudaGetDeviceProperties rt i))) [0..n - 1]"
  have m: "main rt = device_loop rt n 0 [Title] [GetDeviceCount]"
    using n by (simp add: main_def count)
  have 1: "stdout (main rt) = Title # separated_by separator ?secs"
    unfolding m device_loop_success [of 0 n rt, OF ok]
    using sections_separated [of 0 n "\<lambda>i. deviceReport i (snd (cudaGetDeviceProperties rt i))" separator] n
    by simp
  have "\<forall>s \<in> set ?secs. separator \<notin> set s"
    by (auto simp: separator_notin_deviceReport)
  then have "count_list (separated_by separator ?secs) separator = length ?secs - 1"
    by (rule count_separated_by)
  then have 2: "count_list (stdout (main rt)) separator = nat (n - 1)"
    using n by (simp add: 1 separator_def nat_diff_distrib)
  have ne: "?secs \<noteq> []" using n by simp
  have l: "last ?secs = deviceReport (n - 1) (snd (cudaGetDeviceProperties rt (n - 1)))"
    using n by (simp add: upto_rec2 [of 0 "n - 1"])
  have "last ?secs \<noteq> []" unfolding l by (rule last_deviceReport(2))
  from last_separated_by [OF ne this, of separator]
  have 3: "last (stdout (main rt)) \<noteq> separator"
    unfolding 1 l using last_deviceReport(1) by simp
  show ?thesis using 1 2 3 by blast
qed

text \<open>
  Two devices: one rule, between the two sections.
\<close>

theorem main_separators_witness:
  "cudaGetDeviceCount two_devices = (cudaSuccess, 2) \<and> (1::int) \<le> 2
   \<and> stdout (main two_devices) = Title # deviceReport 0 a100 @ separator # deviceReport 1 a100
   \<and> count_list (stdout (main two_devices)) separator = 1"
proof -
  have c: "cudaGetDeviceCount two_devices = (cudaSuccess, 2)"
    by (simp add: two_devices_def)
  have ok: "\<forall>i. 0 \<le> i \<and> i < 2 \<longrightarrow> fst (cudaGetDeviceProperties two_devices i) = cudaSuccess"
    by (simp add: two_devices_def)
  have up: "[0..(1::int)] = [0, 1]" by (simp add: upto_rec1)
  have p: "snd (cudaGetDeviceProperties two_devices i) = a100" for i
    by (simp add: two_devices_def)
  have n: "(1::int) \<le> 2" by simp
  note T = main_separators [OF c n ok]
  have 1: "stdout (main two_devices) =
      Title # deviceReport 0 a100 @ separator # deviceReport 1 a100"
    using conjunct1 [OF T] by (simp add: up p)
  have 2: "count_list (stdout (main two_devices)) separator = 1"
    using conjunct1 [OF conjunct2 [OF T]] by simp
  show ?thesis using c n 1 2 by blast
qed

end
